theory Spec2Isabelle
  imports Main "HOL-Library.List_Lexorder" "HOL-Library.Char_ord" "HOL-Library.Multiset"
    "HOL-Library.Code_Target_Numeral"
begin

section \<open>JavaScript values\<close>

text \<open>
  The two modules are dynamically typed, and most of their code is the checking of
  arguments, so arguments are values of one datatype. A number is a double whose value
  is an integer, \<open>Fin i\<close> for that integer, or \<open>NaN\<close>, the one number every comparison
  with which is false. Counts and the numbers of a tally are incremented in the range
  where that is exact; the sums of \<open>countVotesInRegions\<close> are rounded as the sums of
  doubles are. An object is the list of its own enumerable properties in the
  order \<open>for ... in\<close> visits them; the objects given as arguments are plain ones, whose
  prototype is \<open>Object.prototype\<close>. A function is known by its name and its source text.
  Strings are lists of characters, compared position by position.
\<close>

datatype jsnum = NaN | Fin int

datatype jsval =
    Undefined
  | Null
  | Bool bool
  | Num jsnum
  | Str string
  | Obj "(string \<times> jsval) list"
  | Arr "jsval list"
  | Fun string string

text \<open>\<open>!v\<close> is \<open>\<not> truthy v\<close>.\<close>

fun truthy :: "jsval \<Rightarrow> bool" where
  "truthy Undefined = False"
| "truthy Null = False"
| "truthy (Bool b) = b"
| "truthy (Num NaN) = False"
| "truthy (Num (Fin n)) = (n \<noteq> 0)"
| "truthy (Str s) = (s \<noteq> [])"
| "truthy (Obj ps) = True"
| "truthy (Arr xs) = True"
| "truthy (Fun name src) = True"

fun typeof :: "jsval \<Rightarrow> string" where
  "typeof Undefined = ''undefined''"
| "typeof Null = ''object''"
| "typeof (Bool b) = ''boolean''"
| "typeof (Num n) = ''number''"
| "typeof (Str s) = ''string''"
| "typeof (Obj ps) = ''object''"
| "typeof (Arr xs) = ''object''"
| "typeof (Fun name src) = ''function''"

section \<open>Strings of values\<close>

text \<open>
  \<open>String(v)\<close>, which is also the property key that \<open>o[v]\<close> uses. An integer prints in
  decimal; an array prints its elements separated by commas, \<open>null\<close> and \<open>undefined\<close> as
  nothing; a plain object prints as \<open>[object Object]\<close>; a function prints its source.
  Objects and arrays are data: none defines a \<open>toString\<close> or \<open>valueOf\<close> of its own.
\<close>

definition digit_char :: "nat \<Rightarrow> char" where
  "digit_char d = ''0123456789'' ! d"

fun show_nat :: "nat \<Rightarrow> string" where
  "show_nat n =
     (if n < 10 then [digit_char n] else show_nat (n div 10) @ [digit_char (n mod 10)])"

declare show_nat.simps [simp del]

definition show_int :: "int \<Rightarrow> string" where
  "show_int i = (if i < 0 then CHR ''-'' # show_nat (nat (- i)) else show_nat (nat i))"

fun to_string :: "jsval \<Rightarrow> string" and join :: "jsval list \<Rightarrow> string" where
  "to_string Undefined = ''undefined''"
| "to_string Null = ''null''"
| "to_string (Bool b) = (if b then ''true'' else ''false'')"
| "to_string (Num NaN) = ''NaN''"
| "to_string (Num (Fin i)) = show_int i"
| "to_string (Str s) = s"
| "to_string (Obj ps) = ''[object Object]''"
| "to_string (Arr xs) = join xs"
| "to_string (Fun name src) = src"
| "join [] = []"
| "join (x # xs) =
     (if x = Undefined \<or> x = Null then [] else to_string x)
       @ (if xs = [] then [] else CHR '','' # join xs)"

section \<open>Objects as dictionaries\<close>

text \<open>
  \<open>candidateMap\<close>, \<open>votes\<close> and the tally of \<open>tallyPure\<close> are plain objects read and
  written with computed keys. A read \<open>o[k]\<close> that finds no own property \<open>k\<close> goes on to
  the prototype of \<open>o\<close>. For a plain object that is \<open>Object.prototype\<close>, whose members
  are these; none of them is enumerable. The member \<open>__proto__\<close> reads as the prototype
  of the object it is read from: here \<open>Object.prototype\<close> itself.
\<close>

definition object_prototype :: "(string \<times> jsval) list" where
  "object_prototype =
     [(''constructor'', Fun ''Object'' ''function Object() { [native code] }''),
      (''__defineGetter__'', Fun ''__defineGetter__'' ''function __defineGetter__() { [native code] }''),
      (''__defineSetter__'', Fun ''__defineSetter__'' ''function __defineSetter__() { [native code] }''),
      (''hasOwnProperty'', Fun ''hasOwnProperty'' ''function hasOwnProperty() { [native code] }''),
      (''__lookupGetter__'', Fun ''__lookupGetter__'' ''function __lookupGetter__() { [native code] }''),
      (''__lookupSetter__'', Fun ''__lookupSetter__'' ''function __lookupSetter__() { [native code] }''),
      (''isPrototypeOf'', Fun ''isPrototypeOf'' ''function isPrototypeOf() { [native code] }''),
      (''propertyIsEnumerable'', Fun ''propertyIsEnumerable'' ''function propertyIsEnumerable() { [native code] }''),
      (''toString'', Fun ''toString'' ''function toString() { [native code] }''),
      (''valueOf'', Fun ''valueOf'' ''function valueOf() { [native code] }''),
      (''__proto__'', Obj []),
      (''toLocaleString'', Fun ''toLocaleString'' ''function toLocaleString() { [native code] }'')]"

definition lookup :: "(string \<times> jsval) list \<Rightarrow> string \<Rightarrow> jsval" where
  "lookup ps k =
     (case map_of ps k of
        Some v \<Rightarrow> v
      | None \<Rightarrow> (case map_of object_prototype k of Some v \<Rightarrow> v | None \<Rightarrow> Undefined))"

text \<open>
  \<open>v.k\<close> for the fixed names that the program reads on a value that is not \<open>null\<close> or
  \<open>undefined\<close>: \<open>id\<close>, \<open>name\<close>, \<open>party\<close>, \<open>age\<close>, \<open>votes\<close> and \<open>subRegions\<close>. An object
  has them as properties, its own or inherited; a function has its \<open>name\<close>; an array or
  a primitive value has none of them.
\<close>

fun field :: "jsval \<Rightarrow> string \<Rightarrow> jsval" where
  "field (Obj ps) k = lookup ps k"
| "field (Fun name src) k = (if k = ''name'' then Str name else Undefined)"
| "field _ k = Undefined"

text \<open>
  The own keys of an object are kept in the order in which \<open>for ... in\<close> and the spread
  \<open>{...o}\<close> visit them: first the keys that are array indices (decimal numerals without a
  leading zero, below \<open>2^32 - 1\<close>) in ascending numeric order, then the other keys in the
  order of their creation.
\<close>

definition digit_value :: "char \<Rightarrow> nat" where
  "digit_value c = of_char c - 48"

definition index_value :: "string \<Rightarrow> nat" where
  "index_value s = foldl (\<lambda>a c. 10 * a + digit_value c) 0 s"

definition is_digit :: "char \<Rightarrow> bool" where
  "is_digit c = (c \<in> set ''0123456789'')"

definition is_array_index :: "string \<Rightarrow> bool" where
  "is_array_index s =
     (s \<noteq> [] \<and> list_all is_digit s \<and> (length s = 1 \<or> hd s \<noteq> CHR ''0'')
      \<and> index_value s < 4294967295)"

definition key_before :: "string \<Rightarrow> string \<Rightarrow> bool" where
  "key_before k k' =
     (is_array_index k \<and> (is_array_index k' \<longrightarrow> index_value k < index_value k'))"

fun insert_key :: "string \<Rightarrow> 'v \<Rightarrow> (string \<times> 'v) list \<Rightarrow> (string \<times> 'v) list" where
  "insert_key k v [] = [(k, v)]"
| "insert_key k v (p # ps) =
     (if key_before k (fst p) then (k, v) # p # ps else p # insert_key k v ps)"

fun replace :: "string \<Rightarrow> 'v \<Rightarrow> (string \<times> 'v) list \<Rightarrow> (string \<times> 'v) list" where
  "replace k v [] = []"
| "replace k v (p # ps) = (if fst p = k then (k, v) # ps else p # replace k v ps)"

text \<open>
  The assignment \<open>o[k] = v\<close> of a primitive value \<open>v\<close> to a key of an object \<open>o\<close> whose
  prototype is \<open>Object.prototype\<close>: what the program does to \<open>votes\<close>, to which it
  assigns counts and strings, and to the tally of \<open>tallyPure\<close>, to which it assigns
  numbers and strings. An own property keeps its place. Without an own property of that
  name, the key \<open>__proto__\<close> reaches the setter inherited from \<open>Object.prototype\<close>, which
  creates no property and, given a primitive value, does nothing. The assignment of an
  object, which \<open>createElection\<close> does to \<open>candidateMap\<close>, is \<open>set_candidate\<close> below.
\<close>

definition assign :: "(string \<times> 'v) list \<Rightarrow> string \<Rightarrow> 'v \<Rightarrow> (string \<times> 'v) list" where
  "assign ps k v =
     (if k \<in> fst ` set ps then replace k v ps
      else if k = ''__proto__'' then ps
      else insert_key k v ps)"

text \<open>The own enumerable properties that \<open>{...v}\<close> copies.\<close>

fun spread :: "jsval \<Rightarrow> (string \<times> jsval) list" where
  "spread (Obj ps) = ps"
| "spread (Arr xs) = zip (map show_nat [0 ..< length xs]) xs"
| "spread (Str s) = zip (map show_nat [0 ..< length s]) (map (\<lambda>c. Str [c]) s)"
| "spread _ = []"

section \<open>Sorting\<close>

text \<open>
  \<open>Array.prototype.sort\<close> with a comparator is a stable sort. The comparator answers a
  number whose sign says which argument comes first; \<open>sort\<close> reads \<open>NaN\<close> as 0.
\<close>

fun sort_value :: "jsnum \<Rightarrow> int" where
  "sort_value NaN = 0"
| "sort_value (Fin i) = i"

fun insert_by :: "('a \<Rightarrow> 'a \<Rightarrow> int) \<Rightarrow> 'a \<Rightarrow> 'a list \<Rightarrow> 'a list" where
  "insert_by cmp x [] = [x]"
| "insert_by cmp x (y # ys) =
     (if cmp x y \<le> 0 then x # y # ys else y # insert_by cmp x ys)"

definition js_sort :: "('a \<Rightarrow> 'a \<Rightarrow> int) \<Rightarrow> 'a list \<Rightarrow> 'a list" where
  "js_sort cmp xs = foldr (insert_by cmp) xs []"

text \<open>
  The language fixes the result of \<open>sort\<close> for a comparator that is consistent on the
  values to sort: it never answers \<open>NaN\<close>, every value equals itself, \<open>a\<close> equals \<open>b\<close>
  when \<open>b\<close> equals \<open>a\<close>, \<open>a\<close> is before \<open>b\<close> exactly when \<open>b\<close> is after \<open>a\<close>, and each of
  the three relations is transitive. On such a comparator every stable sort gives the
  same array, the one that insertion sort computes here. On any other comparator the
  order of the result is left to the implementation.
\<close>

definition consistent :: "('a \<Rightarrow> 'a \<Rightarrow> int) \<Rightarrow> 'a list \<Rightarrow> bool" where
  "consistent cmp xs =
     (\<forall>a \<in> set xs. \<forall>b \<in> set xs. \<forall>c \<in> set xs.
        cmp a a = 0
        \<and> (cmp a b = 0 \<longrightarrow> cmp b a = 0)
        \<and> (cmp a b < 0 \<longrightarrow> cmp b a > 0)
        \<and> (cmp a b > 0 \<longrightarrow> cmp b a < 0)
        \<and> (cmp a b = 0 \<and> cmp b c = 0 \<longrightarrow> cmp a c = 0)
        \<and> (cmp a b < 0 \<and> cmp b c < 0 \<longrightarrow> cmp a c < 0)
        \<and> (cmp a b > 0 \<and> cmp b c > 0 \<longrightarrow> cmp a c > 0))"

definition consistent_comparator :: "('a \<Rightarrow> 'a \<Rightarrow> jsnum) \<Rightarrow> 'a list \<Rightarrow> bool" where
  "consistent_comparator f xs =
     ((\<forall>a \<in> set xs. \<forall>b \<in> set xs. f a b \<noteq> NaN)
      \<and> consistent (\<lambda>a b. sort_value (f a b)) xs)"

section \<open>The election\<close>

text \<open>
  A value of \<open>votes\<close> is a count, or it is not a number. \<open>createElection\<close> starts every
  count at 0 and \<open>castVote\<close> adds 1 to what it reads, so that what it writes is a count
  again or, when it read something that is not a number, that value's string followed by
  \<open>1\<close>. \<open>Text s\<close> is such a value, known by its string: the text of a function, or
  \<open>[object Object]\<close>, followed by \<open>1\<close>s. It is truthy when the string is not empty, and as
  it does not read as a number, it compares false with every number and its difference
  with a number is \<open>NaN\<close>.
\<close>

datatype tally = Count nat | Text string

text \<open>
  The state of an election is what the four variables of \<open>createElection\<close> hold.
  \<open>candidateMap\<close> is the list of its own properties, and \<open>candidateProto\<close> says what its
  prototype is: \<open>Object.prototype\<close> (\<open>None\<close>), as it is created, or the object, known by
  its own properties, that an assignment to \<open>candidateMap["__proto__"]\<close> has put in its
  place. That object is a copy of a candidate, whose prototype is \<open>Object.prototype\<close>.
  The prototype of \<open>votes\<close> is always \<open>Object.prototype\<close>, as only primitive values are
  assigned to its keys.
\<close>

record election =
  candidateMap :: "(string \<times> jsval) list"
  candidateProto :: "(string \<times> jsval) list option"
  votes :: "(string \<times> tally) list"
  registered :: "jsval list"
  voted :: "jsval list"

text \<open>
  \<open>candidateMap[k]\<close>: the own value; or the value that the prototype has or inherits,
  where the inherited \<open>__proto__\<close> reads as the prototype of \<open>candidateMap\<close>.
\<close>

definition candidate_lookup :: "election \<Rightarrow> string \<Rightarrow> jsval" where
  "candidate_lookup e k =
     (case candidateProto e of
        None \<Rightarrow> lookup (candidateMap e) k
      | Some ps \<Rightarrow>
          (case map_of (candidateMap e) k of
             Some v \<Rightarrow> v
           | None \<Rightarrow>
               if k = ''__proto__'' \<and> k \<notin> fst ` set ps then Obj ps else lookup ps k))"

text \<open>
  The keys that \<open>for (let id in candidateMap)\<close> visits: the own keys, then the enumerable
  keys of the prototype that are not own keys as well.
\<close>

definition candidate_keys :: "election \<Rightarrow> string list" where
  "candidate_keys e =
     map fst (candidateMap e)
       @ (case candidateProto e of
            None \<Rightarrow> []
          | Some ps \<Rightarrow> filter (\<lambda>k. k \<notin> fst ` set (candidateMap e)) (map fst ps))"

text \<open>
  The assignment \<open>candidateMap[k] = copy\<close> of an object. An own property keeps its
  place. Without an own property of that name, the key \<open>__proto__\<close> reaches the setter
  inherited from \<open>Object.prototype\<close>, which makes the object the prototype of
  \<open>candidateMap\<close>, unless the prototype has a property \<open>__proto__\<close> of its own that hides
  the setter. In every other case a property is created.
\<close>

definition set_candidate :: "election \<Rightarrow> string \<Rightarrow> (string \<times> jsval) list \<Rightarrow> election" where
  "set_candidate e k copy =
     (if k \<in> fst ` set (candidateMap e)
      then e\<lparr>candidateMap := replace k (Obj copy) (candidateMap e)\<rparr>
      else if k = ''__proto__''
              \<and> (case candidateProto e of None \<Rightarrow> True | Some ps \<Rightarrow> k \<notin> fst ` set ps)
      then e\<lparr>candidateProto := Some copy\<rparr>
      else e\<lparr>candidateMap := insert_key k (Obj copy) (candidateMap e)\<rparr>)"

text \<open>
  \<open>votes[k]\<close>: the own value, or the value inherited from \<open>Object.prototype\<close>, or
  \<open>undefined\<close> (\<open>None\<close>).
\<close>

definition votes_lookup :: "(string \<times> tally) list \<Rightarrow> string \<Rightarrow> tally option" where
  "votes_lookup vs k =
     (case map_of vs k of
        Some t \<Rightarrow> Some t
      | None \<Rightarrow> map_option (\<lambda>v. Text (to_string v)) (map_of object_prototype k))"

text \<open>\<open>x || 0\<close> and \<open>x + 1\<close> on such values.\<close>

fun or_zero :: "tally option \<Rightarrow> tally" where
  "or_zero None = Count 0"
| "or_zero (Some (Count n)) = Count n"
| "or_zero (Some (Text s)) = (if s = [] then Count 0 else Text s)"

fun plus_one :: "tally \<Rightarrow> tally" where
  "plus_one (Count n) = Count (n + 1)"
| "plus_one (Text s) = Text (s @ ''1'')"

text \<open>The body of the loop of \<open>createElection\<close>, for one element \<open>c\<close> of \<open>candidates\<close>.\<close>

definition add_candidate :: "election \<Rightarrow> jsval \<Rightarrow> election" where
  "add_candidate e c =
     (if truthy c \<and> truthy (field c ''id'')
      then (let k = to_string (field c ''id'')
            in (set_candidate e k (spread c))\<lparr>votes := assign (votes e) k (Count 0)\<rparr>)
      else e)"

definition createElection :: "jsval \<Rightarrow> election" where
  "createElection candidates =
     foldl add_candidate
       \<lparr>candidateMap = [], candidateProto = None, votes = [], registered = [], voted = []\<rparr>
       (case candidates of Arr cs \<Rightarrow> cs | _ \<Rightarrow> [])"

text \<open>
  Comparison of numbers: false when either side is \<open>NaN\<close>. \<open>registerVoter\<close> compares
  \<open>voter.age\<close> only after \<open>typeof\<close> found it a number.
\<close>

fun num_less :: "jsnum \<Rightarrow> jsnum \<Rightarrow> bool" where
  "num_less (Fin a) (Fin b) = (a < b)"
| "num_less _ _ = False"

fun number_of :: "jsval \<Rightarrow> jsnum" where
  "number_of (Num n) = n"
| "number_of _ = NaN"

text \<open>
  The sets \<open>registered\<close> and \<open>voted\<close> are the lists of their elements in the order of
  insertion; an id is added only when it is not in the set. Membership is equality of
  values, under which \<open>NaN\<close> equals itself as it does in a \<open>Set\<close>; an id that is an
  object stands for the one object of that content. \<open>registerVoter\<close> returns its answer
  and the new state.
\<close>

definition registerVoter :: "jsval \<Rightarrow> election \<Rightarrow> bool \<times> election" where
  "registerVoter voter e =
     (if \<not> truthy voter
         \<or> typeof voter \<noteq> ''object''
         \<or> \<not> truthy (field voter ''id'')
         \<or> typeof (field voter ''age'') \<noteq> ''number''
         \<or> num_less (number_of (field voter ''age'')) (Fin 18)
         \<or> field voter ''id'' \<in> set (registered e)
      then (False, e)
      else (True, e\<lparr>registered := registered e @ [field voter ''id'']\<rparr>))"

text \<open>
  A handler is a function from its argument to what it returns; \<open>None\<close> is an argument
  that is not a function (left out, or anything else), for which \<open>castVote\<close> puts the
  function that returns \<open>undefined\<close>. The outcome of a call says which of the two
  handlers was called and with what, what the call returned, and the new state.
\<close>

datatype invoked = OnSuccess jsval | OnError jsval

definition handler :: "(jsval \<Rightarrow> jsval) option \<Rightarrow> jsval \<Rightarrow> jsval" where
  "handler cb = (case cb of Some f \<Rightarrow> f | None \<Rightarrow> (\<lambda>_. Undefined))"

definition castVote ::
  "jsval \<Rightarrow> jsval \<Rightarrow> (jsval \<Rightarrow> jsval) option \<Rightarrow> (jsval \<Rightarrow> jsval) option \<Rightarrow> election
     \<Rightarrow> invoked \<times> jsval \<times> election" where
  "castVote voterId candidateId onSuccess onError e =
     (let successCb = handler onSuccess;
          errorCb = handler onError;
          k = to_string candidateId
      in if voterId \<notin> set (registered e)
         then (OnError (Str ''voter_not_registered''),
               errorCb (Str ''voter_not_registered''), e)
         else if \<not> truthy (candidate_lookup e k)
         then (OnError (Str ''candidate_not_found''),
               errorCb (Str ''candidate_not_found''), e)
         else if voterId \<in> set (voted e)
         then (OnError (Str ''already_voted''), errorCb (Str ''already_voted''), e)
         else (let payload = Obj [(''voterId'', voterId), (''candidateId'', candidateId)]
               in (OnSuccess payload, successCb payload,
                   e\<lparr>votes := assign (votes e) k (plus_one (or_zero (votes_lookup (votes e) k))),
                     voted := voted e @ [voterId]\<rparr>)))"

text \<open>
  \<open>getResults\<close>: one record for each key \<open>id\<close> that \<open>for (let id in candidateMap)\<close>
  visits, made of three properties of \<open>c = candidateMap[id]\<close> and of \<open>votes[id] || 0\<close>.
  Reading a property of \<open>c\<close> throws a \<open>TypeError\<close> when \<open>c\<close> is \<open>undefined\<close> or \<open>null\<close>:
  there is no record then (\<open>None\<close>).
\<close>

record result =
  r_id :: jsval
  r_name :: jsval
  r_party :: jsval
  r_votes :: tally

definition result_of :: "election \<Rightarrow> string \<Rightarrow> result option" where
  "result_of e k =
     (let c = candidate_lookup e k
      in if c = Undefined \<or> c = Null then None
         else Some \<lparr>r_id = field c ''id'', r_name = field c ''name'',
                     r_party = field c ''party'',
                     r_votes = or_zero (votes_lookup (votes e) k)\<rparr>)"

text \<open>
  Then the sort. \<open>None\<close> is an argument that is not a function, for which the
  comparator is \<open>b.votes - a.votes\<close>. The call returns the sorted records (\<open>Results\<close>);
  or, when the comparator is not consistent on the records, the records in an order that
  the implementation chooses (\<open>SomeOrder\<close>, with the records as the loop made them); or
  it throws the \<open>TypeError\<close> of the loop.
\<close>

fun tally_minus :: "tally \<Rightarrow> tally \<Rightarrow> jsnum" where
  "tally_minus (Count a) (Count b) = Fin (int a - int b)"
| "tally_minus _ _ = NaN"

datatype results = Results "result list" | SomeOrder "result list" | TypeError

definition getResults :: "(result \<Rightarrow> result \<Rightarrow> jsnum) option \<Rightarrow> election \<Rightarrow> results" where
  "getResults sortFn e =
     (case those (map (result_of e) (candidate_keys e)) of
        None \<Rightarrow> TypeError
      | Some results \<Rightarrow>
          (let f = (case sortFn of
                      Some f \<Rightarrow> f
                    | None \<Rightarrow> (\<lambda>a b. tally_minus (r_votes b) (r_votes a)))
           in if consistent_comparator f results
              then Results (js_sort (\<lambda>a b. sort_value (f a b)) results)
              else SomeOrder results))"



section \<open>States of an election\<close>

text \<open>
  A sequence of calls on an election, and the state it leaves: \<open>run candidates ops\<close> is
  the state after \<open>createElection(candidates)\<close> and then the calls \<open>ops\<close> in order.
\<close>

datatype operation =
    RegisterVoter jsval
  | CastVote jsval jsval "(jsval \<Rightarrow> jsval) option" "(jsval \<Rightarrow> jsval) option"

fun apply_operation :: "election \<Rightarrow> operation \<Rightarrow> election" where
  "apply_operation e (RegisterVoter voter) = snd (registerVoter voter e)"
| "apply_operation e (CastVote voterId candidateId onSuccess onError) =
     snd (snd (castVote voterId candidateId onSuccess onError e))"

definition run :: "jsval \<Rightarrow> operation list \<Rightarrow> election" where
  "run candidates ops = foldl apply_operation (createElection candidates) ops"

text \<open>A call that names no member of \<open>Object.prototype\<close> as its candidate.\<close>

fun known_candidate :: "operation \<Rightarrow> bool" where
  "known_candidate (RegisterVoter voter) = True"
| "known_candidate (CastVote voterId candidateId onSuccess onError) =
     (to_string candidateId \<notin> fst ` set object_prototype)"

text \<open>
  The vote count of the candidate of key \<open>k\<close> is the number that \<open>votes[k] || 0\<close> gives;
  the total is taken over the keys of \<open>candidateMap\<close>.
\<close>

fun is_count :: "tally \<Rightarrow> bool" where
  "is_count (Count n) = True"
| "is_count (Text s) = False"

fun count_of :: "tally \<Rightarrow> nat" where
  "count_of (Count n) = n"
| "count_of (Text s) = 0"

fun is_text :: "tally \<Rightarrow> bool" where
  "is_text (Count n) = False"
| "is_text (Text s) = (s \<noteq> [])"

fun is_plain_object :: "jsval \<Rightarrow> bool" where
  "is_plain_object (Obj ps) = True"
| "is_plain_object _ = False"

definition votes_of :: "election \<Rightarrow> string \<Rightarrow> nat" where
  "votes_of e k = count_of (or_zero (votes_lookup (votes e) k))"

definition total_votes :: "election \<Rightarrow> nat" where
  "total_votes e = sum_list (map (\<lambda>p. votes_of e (fst p)) (candidateMap e))"

text \<open>
  The candidates that the loop of \<open>createElection\<close> accepts, the key of a candidate, and
  the lists of candidates none of which has the key \<open>__proto__\<close>.
\<close>

definition valid_candidates :: "jsval \<Rightarrow> jsval list" where
  "valid_candidates candidates =
     (case candidates of
        Arr cs \<Rightarrow> filter (\<lambda>c. truthy c \<and> truthy (field c ''id'')) cs
      | _ \<Rightarrow> [])"

definition candidate_key :: "jsval \<Rightarrow> string" where
  "candidate_key c = to_string (field c ''id'')"

definition plain_ids :: "jsval \<Rightarrow> bool" where
  "plain_ids candidates = (''__proto__'' \<notin> candidate_key ` set (valid_candidates candidates))"

text \<open>
  The shape of every state that \<open>run\<close> reaches from such candidates (lemma
  \<open>well_formed_run\<close>): the prototype of \<open>candidateMap\<close> is \<open>Object.prototype\<close>; the keys
  of \<open>votes\<close> are distinct; they begin with the keys of \<open>candidateMap\<close>, in the same
  order, each with a count; what follows are the keys that votes for inherited names have
  added, each with a text; and every candidate is a plain object, the copy made by
  \<open>createElection\<close>.
\<close>

definition well_formed :: "election \<Rightarrow> bool" where
  "well_formed e =
     (candidateProto e = None
      \<and> distinct (map fst (votes e))
      \<and> map fst (take (length (candidateMap e)) (votes e)) = map fst (candidateMap e)
      \<and> list_all is_count (map snd (take (length (candidateMap e)) (votes e)))
      \<and> list_all is_text (map snd (drop (length (candidateMap e)) (votes e)))
      \<and> list_all is_plain_object (map snd (candidateMap e)))"

text \<open>The state that \<open>createElection\<close> builds, while and after its loop.\<close>

definition fresh :: "election \<Rightarrow> bool" where
  "fresh e =
     (candidateProto e = None
      \<and> map fst (votes e) = map fst (candidateMap e) \<and> distinct (map fst (votes e))
      \<and> list_all (\<lambda>t. t = Count 0) (map snd (votes e))
      \<and> list_all is_plain_object (map snd (candidateMap e))
      \<and> registered e = [] \<and> voted e = [])"

text \<open>
  One record for every candidate, in the order in which \<open>for ... in\<close> visits
  \<open>candidateMap\<close>.
\<close>

definition records :: "election \<Rightarrow> result list" where
  "records e =
     map (\<lambda>p. \<lparr>r_id = field (snd p) ''id'', r_name = field (snd p) ''name'',
                r_party = field (snd p) ''party'', r_votes = Count (votes_of e (fst p))\<rparr>)
       (candidateMap e)"


definition results_by_insertion :: "jsval \<Rightarrow> election \<Rightarrow> result list" where
  "results_by_insertion candidates e =
     sort_key (\<lambda>r. - int (count_of (r_votes r)))
       (map (\<lambda>c. \<lparr>r_id = field c ''id'', r_name = field c ''name'', r_party = field c ''party'',
                   r_votes = Count (votes_of e (candidate_key c))\<rparr>)
          (valid_candidates candidates))"

text \<open>
  What the claims on \<open>registerVoter\<close> and on the validator name: a value that is a number
  at least \<open>m\<close>. \<open>NaN\<close> is at least nothing, and nothing is at least \<open>NaN\<close>.
\<close>

fun number_at_least :: "jsval \<Rightarrow> jsnum \<Rightarrow> bool" where
  "number_at_least (Num (Fin a)) (Fin m) = (m \<le> a)"
| "number_at_least _ _ = False"

definition is_object :: "jsval \<Rightarrow> bool" where
  "is_object v = (v \<noteq> Null \<and> typeof v = ''object'')"

section \<open>Example elections\<close>

text \<open>
  The election of the example in the source, with Mohan, who is 25, registered; the same
  after Mohan's vote for C2; and after a vote of his for \<open>toString\<close> instead.
\<close>

definition example_candidates :: jsval where
  "example_candidates =
     Arr [Obj [(''id'', Str ''C1''), (''name'', Str ''Sarpanch Ram''), (''party'', Str ''Janata'')],
          Obj [(''id'', Str ''C2''), (''name'', Str ''Pradhan Sita''), (''party'', Str ''Lok'')]]"

definition mohan :: jsval where
  "mohan = Obj [(''id'', Str ''V1''), (''name'', Str ''Mohan''), (''age'', Num (Fin 25))]"

definition example_election :: election where
  "example_election = snd (registerVoter mohan (createElection example_candidates))"

definition voted_election :: election where
  "voted_election =
     run example_candidates [RegisterVoter mohan, CastVote (Str ''V1'') (Str ''C2'') None None]"

definition stray_election :: election where
  "stray_election =
     run example_candidates
       [RegisterVoter mohan, CastVote (Str ''V1'') (Str ''toString'') None None]"

text \<open>
  An election whose candidates have the ids 2 and 1, given in this order, after each got
  one vote.
\<close>

definition tie_candidates :: jsval where
  "tie_candidates =
     Arr [Obj [(''id'', Str ''2''), (''name'', Str ''Sita''), (''party'', Str ''Lok'')],
          Obj [(''id'', Str ''1''), (''name'', Str ''Ram''), (''party'', Str ''Janata'')]]"


text \<open>
  An election with one candidate, whose id is \<open>__proto__\<close>; and the same after the
  registration of a voter and that voter's vote for \<open>name\<close>.
\<close>

definition proto_candidates :: jsval where
  "proto_candidates =
     Arr [Obj [(''id'', Str ''__proto__''), (''name'', Str ''X''), (''party'', Str ''P'')]]"


text \<open>A comparator for \<open>getResults\<close>: by name.\<close>

definition by_name :: "result \<Rightarrow> result \<Rightarrow> jsnum" where
  "by_name a b =
     (if to_string (r_name a) < to_string (r_name b) then Fin (- 1)
      else if to_string (r_name a) = to_string (r_name b) then Fin 0 else Fin 1)"

section \<open>The vote validator\<close>









section \<open>The pure tally\<close>

text \<open>
  \<open>x + 1\<close> for any value \<open>x\<close>: a number is incremented, \<open>true\<close>, \<open>false\<close> and \<open>null\<close> count
  as 1, 0 and 0, \<open>undefined\<close> gives \<open>NaN\<close>, and a string, an object, an array or a function
  is turned into its string, to which \<open>1\<close> is appended.
\<close>

fun add_one :: "jsval \<Rightarrow> jsval" where
  "add_one (Num (Fin n)) = Num (Fin (n + 1))"
| "add_one (Num NaN) = Num NaN"
| "add_one (Bool b) = Num (Fin (if b then 2 else 1))"
| "add_one Null = Num (Fin 1)"
| "add_one Undefined = Num NaN"
| "add_one v = Str (to_string v @ ''1'')"

text \<open>\<open>tallyPure\<close> returns the new object.\<close>

definition tallyPure :: "jsval \<Rightarrow> jsval \<Rightarrow> jsval" where
  "tallyPure currentTally candidateId =
     (let base = (if truthy currentTally \<and> typeof currentTally = ''object''
                  then currentTally else Obj []);
          newTally = spread base
      in if \<not> truthy candidateId then Obj newTally
         else (let k = to_string candidateId;
                   old = lookup newTally k
               in Obj (assign newTally k
                         (add_one (if truthy old then old else Num (Fin 0))))))"

section \<open>The festival manager\<close>

text \<open>
  The private state of a manager is the array \<open>festivals\<close>. A record is pushed only after
  its three fields were checked to be strings, so the fields are strings here.
\<close>

record festival =
  f_name :: string
  f_date :: string
  f_type :: string

definition validTypes :: "string set" where
  "validTypes = {''religious'', ''national'', ''cultural''}"

text \<open>The regular expression \<open>/^\d{4}-\d{2}-\d{2}$/\<close>, in which \<open>\d\<close> is an ASCII digit.\<close>

definition date_pattern :: "string \<Rightarrow> bool" where
  "date_pattern s =
     (length s = 10 \<and>
      list_all is_digit (take 4 s) \<and> s ! 4 = CHR ''-'' \<and>
      list_all is_digit (take 2 (drop 5 s)) \<and> s ! 7 = CHR ''-'' \<and>
      list_all is_digit (drop 8 s))"

fun isValidDateStr :: "jsval \<Rightarrow> bool" where
  "isValidDateStr (Str s) = date_pattern s"
| "isValidDateStr _ = False"

text \<open>The loop of \<open>addFestival\<close> that looks for a festival of the same name.\<close>

fun name_taken :: "string \<Rightarrow> festival list \<Rightarrow> bool" where
  "name_taken n [] = False"
| "name_taken n (f # fs) = (if f_name f = n then True else name_taken n fs)"

text \<open>
  \<open>addFestival\<close> returns \<open>-1\<close> or the new length, and the new state. An argument that is not
  a string fails the first test (\<open>typeof name !== "string"\<close>, the \<open>typeof\<close> inside
  \<open>isValidDateStr\<close>, or the membership in a set of three strings).
\<close>

definition addFestival ::
  "jsval \<Rightarrow> jsval \<Rightarrow> jsval \<Rightarrow> festival list \<Rightarrow> int \<times> festival list" where
  "addFestival name date type festivals =
     (case (name, date, type) of
        (Str n, Str d, Str t) \<Rightarrow>
          if \<not> truthy name \<or> \<not> isValidDateStr date \<or> t \<notin> validTypes then (- 1, festivals)
          else if name_taken n festivals then (- 1, festivals)
          else (let festivals' = festivals @ [\<lparr>f_name = n, f_date = d, f_type = t\<rparr>]
                in (int (length festivals'), festivals'))
      | _ \<Rightarrow> (- 1, festivals))"

text \<open>
  \<open>a.localeCompare(b)\<close> on two dates. Both match the date pattern, so they are ten ASCII
  characters with the hyphens at the same places, on which the collation order is the
  order of the characters.
\<close>

definition localeCompare :: "string \<Rightarrow> string \<Rightarrow> int" where
  "localeCompare a b = (if a < b then - 1 else if a = b then 0 else 1)"

text \<open>The loop of \<open>getUpcoming\<close> that copies the festivals on or after the date.\<close>

fun upcoming_from :: "string \<Rightarrow> festival list \<Rightarrow> festival list" where
  "upcoming_from cur [] = []"
| "upcoming_from cur (f # fs) =
     (if f_date f \<ge> cur then f # upcoming_from cur fs else upcoming_from cur fs)"

text \<open>
  \<open>getUpcoming(currentDate, n = 3)\<close>: \<open>n\<close> is a number of festivals, a natural number; the
  default applies when the argument is left out.
\<close>

definition getUpcoming :: "jsval \<Rightarrow> nat option \<Rightarrow> festival list \<Rightarrow> festival list" where
  "getUpcoming currentDate n festivals =
     (if \<not> isValidDateStr currentDate then []
      else (case currentDate of
              Str cur \<Rightarrow>
                (let filtered = upcoming_from cur festivals;
                     sorted = js_sort (\<lambda>a b. localeCompare (f_date a) (f_date b)) filtered
                 in take (case n of None \<Rightarrow> 3 | Some k \<Rightarrow> k) sorted)
            | _ \<Rightarrow> []))"

text \<open>What the claims call a non-empty string.\<close>

fun nonempty_string :: "jsval \<Rightarrow> bool" where
  "nonempty_string (Str s) = (s \<noteq> [])"
| "nonempty_string _ = False"

section \<open>The votes of a tree of regions\<close>


























section \<open>Properties of registerVoter\<close>

lemma is_object_iff: "is_object v \<longleftrightarrow> truthy v \<and> typeof v = ''object''"
  by (cases v) (auto simp: is_object_def)

lemma not_less_iff:
  "(typeof a \<noteq> ''number'' \<or> num_less (number_of a) (Fin m))
     \<longleftrightarrow> \<not> (a = Num NaN \<or> number_at_least a (Fin m))"
proof (cases a)
  case (Num n)
  then show ?thesis
    by (cases n) auto
qed simp_all

lemma example_election_eq:
  "example_election =
     \<lparr>candidateMap =
        [(''C1'', Obj [(''id'', Str ''C1''), (''name'', Str ''Sarpanch Ram''),
                       (''party'', Str ''Janata'')]),
         (''C2'', Obj [(''id'', Str ''C2''), (''name'', Str ''Pradhan Sita''),
                       (''party'', Str ''Lok'')])],
      candidateProto = None,
      votes = [(''C1'', Count 0), (''C2'', Count 0)],
      registered = [Str ''V1''], voted = []\<rparr>"
  by (simp add: example_election_def registerVoter_def mohan_def createElection_def
      example_candidates_def add_candidate_def set_candidate_def assign_def lookup_def Let_def
      key_before_def is_array_index_def is_digit_def)

text \<open>
  C3 as it is stated fails: a voter whose age is \<open>NaN\<close> is registered, although \<open>NaN\<close> is
  not an age of 18 or more.
\<close>

theorem registerVoter_NaN_counterexample:
  "fst (registerVoter (Obj [(''id'', Str ''V2''), (''age'', Num NaN)]) example_election)
   \<and> \<not> number_at_least (field (Obj [(''id'', Str ''V2''), (''age'', Num NaN)]) ''age'') (Fin 18)"
  by (simp add: registerVoter_def example_election_eq lookup_def)

text \<open>
  C3, amended. \<open>registerVoter(voter)\<close> returns true if and only if \<open>voter\<close> is an object
  (not \<open>null\<close>) with a truthy \<open>id\<close>, an \<open>age\<close> that is a number and is \<open>NaN\<close> or at least 18,
  and an \<open>id\<close> that is not registered yet; it then registers the id. In every other case
  it returns false and changes nothing. It returns in every case (the function of the
  model is total and has no error among its results, as the source has no \<open>throw\<close>), and
  registering the same voter again returns false.
\<close>

theorem registerVoter_spec:
  "(fst (registerVoter voter e) \<longleftrightarrow>
      is_object voter \<and> truthy (field voter ''id'')
      \<and> (field voter ''age'' = Num NaN \<or> number_at_least (field voter ''age'') (Fin 18))
      \<and> field voter ''id'' \<notin> set (registered e))
   \<and> snd (registerVoter voter e)
       = (if fst (registerVoter voter e)
          then e\<lparr>registered := registered e @ [field voter ''id'']\<rparr> else e)
   \<and> \<not> fst (registerVoter voter (snd (registerVoter voter e)))"
proof -
  have a: "fst (registerVoter voter e) \<longleftrightarrow>
      is_object voter \<and> truthy (field voter ''id'')
      \<and> (field voter ''age'' = Num NaN \<or> number_at_least (field voter ''age'') (Fin 18))
      \<and> field voter ''id'' \<notin> set (registered e)" for e
    using not_less_iff [of "field voter ''age''" 18]
    by (auto simp: registerVoter_def is_object_iff)
  have b: "snd (registerVoter voter e)
       = (if fst (registerVoter voter e)
          then e\<lparr>registered := registered e @ [field voter ''id'']\<rparr> else e)"
    by (simp add: registerVoter_def)
  have "\<not> fst (registerVoter voter (snd (registerVoter voter e)))"
    unfolding a b by (simp add: a)
  with a b show ?thesis
    by blast
qed

text \<open>
  Mohan, 25, is registered in the fresh election of the example, and not a second time;
  a voter of 17 is not registered.
\<close>

theorem registerVoter_spec_witness:
  "fst (registerVoter mohan (createElection example_candidates))
   \<and> \<not> fst (registerVoter mohan example_election)
   \<and> \<not> fst (registerVoter (Obj [(''id'', Str ''V3''), (''age'', Num (Fin 17))]) example_election)"
proof -
  have "fst (registerVoter mohan (createElection example_candidates))"
    using registerVoter_spec [of mohan "createElection example_candidates"]
    by (simp add: mohan_def lookup_def is_object_def createElection_def
        example_candidates_def add_candidate_def set_candidate_def assign_def Let_def
        key_before_def is_array_index_def is_digit_def)
  moreover have "\<not> fst (registerVoter mohan example_election)"
    unfolding example_election_def
    using registerVoter_spec [of mohan "createElection example_candidates"]
    by blast
  moreover
  have "\<not> fst (registerVoter (Obj [(''id'', Str ''V3''), (''age'', Num (Fin 17))])
            example_election)"
    using registerVoter_spec [of "Obj [(''id'', Str ''V3''), (''age'', Num (Fin 17))]"
        example_election]
    by (simp add: lookup_def)
  ultimately show ?thesis
    by blast
qed

section \<open>Assignments to an object\<close>

text \<open>
  An assignment to an own key changes the value in place; a key that is not an array
  index is appended; the keys after an assignment depend on the keys before it only.
\<close>

lemma replace_map:
  "distinct (map fst ps) \<Longrightarrow>
     replace k v ps = map (\<lambda>p. if fst p = k then (k, v) else p) ps"
proof (induction ps)
  case Nil
  then show ?case by simp
next
  case (Cons p ps)
  show ?case
  proof (cases "fst p = k")
    case True
    with Cons.prems have "map (\<lambda>p. if fst p = k then (k, v) else p) ps = ps"
      by (intro map_idI) (force simp: image_iff)
    with True show ?thesis
      by simp
  next
    case False
    with Cons show ?thesis
      by simp
  qed
qed

lemma map_fst_replace: "map fst (replace k v ps) = map fst ps"
  by (induction ps) auto

lemma insert_key_not_index: "\<not> is_array_index k \<Longrightarrow> insert_key k v ps = ps @ [(k, v)]"
  by (induction ps) (auto simp: key_before_def)

lemma map_fst_insert_key:
  "map fst ps = map fst qs \<Longrightarrow> map fst (insert_key k v ps) = map fst (insert_key k w qs)"
proof (induction ps arbitrary: qs)
  case Nil
  then show ?case by simp
next
  case (Cons p ps)
  then obtain q qs' where "qs = q # qs'" "fst p = fst q" "map fst ps = map fst qs'"
    by (cases qs) auto
  with Cons.IH [of qs'] show ?case
    by simp
qed

lemma set_insert_key: "set (insert_key k v ps) = insert (k, v) (set ps)"
  by (induction ps) auto

lemma distinct_insert_key:
  "distinct (map fst ps) \<Longrightarrow> k \<notin> fst ` set ps \<Longrightarrow> distinct (map fst (insert_key k v ps))"
  by (induction ps) (auto simp: set_insert_key)

lemma map_fst_assign:
  "map fst ps = map fst qs \<Longrightarrow> map fst (assign ps k v) = map fst (assign qs k w)"
proof -
  assume eq: "map fst ps = map fst qs"
  then have "fst ` set ps = fst ` set qs"
    by (metis list.set_map)
  with eq map_fst_insert_key [OF eq] show ?thesis
    by (simp add: assign_def map_fst_replace)
qed

lemma distinct_assign: "distinct (map fst ps) \<Longrightarrow> distinct (map fst (assign ps k v))"
  by (simp add: assign_def map_fst_replace distinct_insert_key)

lemma set_replace: "snd ` set (replace k v ps) \<subseteq> insert v (snd ` set ps)"
  by (induction ps) auto

lemma snd_set_assign: "snd ` set (assign ps k v) \<subseteq> insert v (snd ` set ps)"
  using set_replace [of k v ps] by (auto simp: assign_def set_insert_key)

lemma list_all_assign:
  assumes "list_all P (map snd ps)" and "P v"
  shows "list_all P (map snd (assign ps k v))"
  unfolding list_all_iff
proof
  fix x
  assume "x \<in> set (map snd (assign ps k v))"
  then have "x \<in> insert v (snd ` set ps)"
    using snd_set_assign [of ps k v] by auto
  with assms show "P x"
    by (auto simp: list_all_iff)
qed

lemma inherited_key:
  assumes "map_of object_prototype k = Some v"
  shows "\<not> is_array_index k" and "to_string v \<noteq> []"
proof -
  from assms have "(k, v) \<in> set object_prototype"
    by (rule map_of_SomeD)
  then show "\<not> is_array_index k" and "to_string v \<noteq> []"
    by (auto simp: object_prototype_def is_array_index_def is_digit_def)
qed

lemma assign_own:
  assumes dist: "distinct (map fst vs)" and t: "(k, t) \<in> set vs"
  shows "assign vs k t' = map (\<lambda>p. if fst p = k then (k, t') else p) vs"
proof -
  from t have "k \<in> fst ` set vs"
    by (metis fst_conv image_eqI)
  then show ?thesis
    using replace_map [OF dist, of k t'] by (simp add: assign_def)
qed

lemma assign_inherited:
  assumes "k \<notin> fst ` set vs" and "k \<noteq> ''__proto__''"
    and "map_of object_prototype k = Some v"
  shows "assign vs k t' = vs @ [(k, t')]"
  using assms inherited_key(1) [OF assms(3)] by (simp add: assign_def insert_key_not_index)

lemma list_all_update:
  assumes all: "list_all P (map snd xs)" and sub: "set xs \<subseteq> set vs"
    and dist: "distinct (map fst vs)" and t: "(k, t) \<in> set vs"
    and step: "P t \<Longrightarrow> P t'"
  shows "list_all P (map snd (map (\<lambda>p. if fst p = k then (k, t') else p) xs))"
  unfolding list_all_iff
proof
  fix y
  assume "y \<in> set (map snd (map (\<lambda>p. if fst p = k then (k, t') else p) xs))"
  then obtain p where p: "p \<in> set xs" and y: "y = snd (if fst p = k then (k, t') else p)"
    by auto
  from all p have Pp: "P (snd p)"
    by (simp add: list_all_iff)
  show "P y"
  proof (cases "fst p = k")
    case True
    with p sub have "(k, snd p) \<in> set vs"
      by (metis prod.collapse subsetD)
    with t dist have "snd p = t"
      by (meson eq_key_imp_eq_value)
    with Pp step True show ?thesis
      by (simp add: y)
  next
    case False
    with Pp show ?thesis
      by (simp add: y)
  qed
qed

lemma map_fst_update: "map fst (map (\<lambda>p. if fst p = k then (k, t') else p) xs) = map fst xs"
  by (induction xs) auto

lemma map_of_replace:
  "map_of (replace k v ps) k' = (if k' = k \<and> k \<in> fst ` set ps then Some v else map_of ps k')"
  by (induction ps) (fastforce simp: image_iff)+

lemma map_of_insert_key:
  "k \<notin> fst ` set ps \<Longrightarrow> map_of (insert_key k v ps) k' = (if k' = k then Some v else map_of ps k')"
  by (induction ps) (auto simp: image_iff)

lemma map_of_assign:
  "k \<in> fst ` set ps \<or> k \<noteq> ''__proto__'' \<Longrightarrow>
     map_of (assign ps k v) k' = (if k' = k then Some v else map_of ps k')"
  by (auto simp: assign_def map_of_replace map_of_insert_key)

section \<open>The states of an election\<close>

text \<open>
  From candidates none of which has the key \<open>__proto__\<close>, \<open>createElection\<close> builds a
  fresh state; \<open>registerVoter\<close> and \<open>castVote\<close> keep a state well formed: every state
  that a sequence of calls reaches from such candidates is well formed.
\<close>

lemma fresh_add_candidate:
  assumes f: "fresh e"
    and plain: "truthy c \<and> truthy (field c ''id'') \<Longrightarrow> candidate_key c \<noteq> ''__proto__''"
  shows "fresh (add_candidate e c)"
proof (cases "truthy c \<and> truthy (field c ''id'')")
  case False
  with f show ?thesis
    by (auto simp: add_candidate_def)
next
  case True
  define k where "k = to_string (field c ''id'')"
  from plain [OF True] have proto: "k \<noteq> ''__proto__''"
    by (simp add: k_def candidate_key_def)
  then have "set_candidate e k (spread c)
      = e\<lparr>candidateMap := assign (candidateMap e) k (Obj (spread c))\<rparr>"
    by (simp add: set_candidate_def assign_def)
  then have e': "add_candidate e c
      = e\<lparr>candidateMap := assign (candidateMap e) k (Obj (spread c)),
          votes := assign (votes e) k (Count 0)\<rparr>"
    using True by (simp add: add_candidate_def k_def Let_def)
  from f have keys: "map fst (votes e) = map fst (candidateMap e)"
    by (simp add: fresh_def)
  have "list_all (\<lambda>t. t = Count 0) (map snd (assign (votes e) k (Count 0)))"
    by (rule list_all_assign) (use f in \<open>simp_all add: fresh_def\<close>)
  moreover
  have "list_all is_plain_object (map snd (assign (candidateMap e) k (Obj (spread c))))"
    by (rule list_all_assign) (use f in \<open>simp_all add: fresh_def\<close>)
  moreover have "distinct (map fst (assign (votes e) k (Count 0)))"
    by (rule distinct_assign) (use f in \<open>auto simp: fresh_def\<close>)
  moreover note map_fst_assign [OF keys, of k "Count 0" "Obj (spread c)"]
  ultimately show ?thesis
    using f by (auto simp: e' fresh_def)
qed

lemma fresh_foldl:
  assumes "fresh e"
    and "\<And>c. c \<in> set cs \<Longrightarrow> truthy c \<and> truthy (field c ''id'')
           \<Longrightarrow> candidate_key c \<noteq> ''__proto__''"
  shows "fresh (foldl add_candidate e cs)"
  using assms
proof (induction cs arbitrary: e)
  case Nil
  then show ?case by simp
next
  case (Cons c cs)
  from Cons.prems have "fresh (add_candidate e c)"
    by (intro fresh_add_candidate) simp_all
  with Cons.IH [of "add_candidate e c"] Cons.prems(2) show ?case
    by simp
qed

lemma fresh_createElection:
  assumes "plain_ids candidates"
  shows "fresh (createElection candidates)"
proof (cases candidates)
  case (Arr cs)
  have "fresh (foldl add_candidate
      \<lparr>candidateMap = [], candidateProto = None, votes = [], registered = [], voted = []\<rparr> cs)"
  proof (rule fresh_foldl)
    fix c
    assume "c \<in> set cs" "truthy c \<and> truthy (field c ''id'')"
    with assms Arr show "candidate_key c \<noteq> ''__proto__''"
      by (force simp: plain_ids_def valid_candidates_def)
  qed (simp add: fresh_def)
  with Arr show ?thesis
    by (simp add: createElection_def)
qed (simp_all add: createElection_def fresh_def)

lemma add_candidate_voters:
  "registered (add_candidate e c) = registered e \<and> voted (add_candidate e c) = voted e"
  by (simp add: add_candidate_def set_candidate_def Let_def)

lemma createElection_voters:
  "registered (createElection candidates) = [] \<and> voted (createElection candidates) = []"
proof -
  have "registered (foldl add_candidate e cs) = registered e
      \<and> voted (foldl add_candidate e cs) = voted e" for e cs
    by (induction cs arbitrary: e) (simp_all add: add_candidate_voters)
  then show ?thesis
    by (simp add: createElection_def)
qed

lemma fresh_well_formed: "fresh e \<Longrightarrow> well_formed e"
proof -
  assume f: "fresh e"
  then have "length (votes e) = length (candidateMap e)"
    by (auto simp: fresh_def dest: map_eq_imp_length_eq)
  with f show ?thesis
    by (auto simp: fresh_def well_formed_def list_all_iff)
qed

lemma well_formed_lookup: "well_formed e \<Longrightarrow> candidate_lookup e k = lookup (candidateMap e) k"
  by (simp add: well_formed_def candidate_lookup_def)

lemma well_formed_keys: "well_formed e \<Longrightarrow> candidate_keys e = map fst (candidateMap e)"
  by (simp add: well_formed_def candidate_keys_def)

lemma plus_one_count: "is_count t \<Longrightarrow> is_count (plus_one (or_zero (Some t)))"
  by (cases t) auto

lemma plus_one_text: "is_text t \<Longrightarrow> is_text (plus_one (or_zero (Some t)))"
  by (cases t) auto

lemma keys_subset:
  assumes "map fst (take n vs) = map fst cm"
  shows "fst ` set cm \<subseteq> fst ` set vs"
proof -
  have "fst ` set cm = set (map fst (take n vs))"
    using assms by simp
  also have "\<dots> \<subseteq> fst ` set vs"
    using set_take_subset [of n vs] by auto
  finally show ?thesis .
qed

lemma well_formed_registerVoter: "well_formed e \<Longrightarrow> well_formed (snd (registerVoter voter e))"
  by (simp add: registerVoter_def well_formed_def)

lemma well_formed_vote:
  assumes wf: "well_formed e" and found: "truthy (candidate_lookup e k)"
  shows "well_formed
           (e\<lparr>votes := assign (votes e) k (plus_one (or_zero (votes_lookup (votes e) k))),
              voted := vd\<rparr>)"
proof -
  define cm where "cm = candidateMap e"
  define vs where "vs = votes e"
  define n where "n = length cm"
  define t' where "t' = plus_one (or_zero (votes_lookup vs k))"
  from wf have dist: "distinct (map fst vs)"
    and keys: "map fst (take n vs) = map fst cm"
    and counts: "list_all is_count (map snd (take n vs))"
    and texts: "list_all is_text (map snd (drop n vs))"
    and objs: "list_all is_plain_object (map snd cm)"
    and plain: "candidateProto e = None"
    by (simp_all add: well_formed_def cm_def vs_def n_def)
  have len: "n \<le> length vs"
    using map_eq_imp_length_eq [OF keys] by (simp add: n_def)
  have goal: "well_formed (e\<lparr>votes := vs', voted := vd\<rparr>)"
    if "distinct (map fst vs')" "map fst (take n vs') = map fst cm"
      "list_all is_count (map snd (take n vs'))" "list_all is_text (map snd (drop n vs'))"
    for vs'
    using that objs plain by (simp add: well_formed_def cm_def n_def)
  have "well_formed (e\<lparr>votes := assign vs k t', voted := vd\<rparr>)"
  proof (cases "k \<in> fst ` set vs")
    case True
    then obtain t where t: "(k, t) \<in> set vs"
      by auto
    with dist have look: "votes_lookup vs k = Some t"
      by (simp add: votes_lookup_def)
    have step_count: "is_count t \<Longrightarrow> is_count t'"
      by (simp add: t'_def look plus_one_count)
    have step_text: "is_text t \<Longrightarrow> is_text t'"
      by (simp add: t'_def look plus_one_text)
    show ?thesis
      unfolding assign_own [OF dist t]
    proof (rule goal)
      show "distinct (map fst (map (\<lambda>p. if fst p = k then (k, t') else p) vs))"
        using dist unfolding map_fst_update .
      show "map fst (take n (map (\<lambda>p. if fst p = k then (k, t') else p) vs)) = map fst cm"
        using keys unfolding take_map map_fst_update .
      show "list_all is_count
              (map snd (take n (map (\<lambda>p. if fst p = k then (k, t') else p) vs)))"
        unfolding take_map
        using counts set_take_subset dist t step_count by (rule list_all_update)
      show "list_all is_text
              (map snd (drop n (map (\<lambda>p. if fst p = k then (k, t') else p) vs)))"
        unfolding drop_map
        using texts set_drop_subset dist t step_text by (rule list_all_update)
    qed
  next
    case False
    show ?thesis
    proof (cases "k = ''__proto__''")
      case True
      with False have "assign vs k t' = vs"
        by (simp add: assign_def)
      moreover have "well_formed (e\<lparr>votes := vs, voted := vd\<rparr>)"
        using dist keys counts texts by (rule goal)
      ultimately show ?thesis
        by simp
    next
      case proto: False
      from False keys_subset [OF keys] have "k \<notin> fst ` set cm"
        by blast
      then have "map_of cm k = None"
        by (simp add: map_of_eq_None_iff)
      with found obtain v where v: "map_of object_prototype k = Some v"
        by (auto simp: well_formed_lookup [OF wf] lookup_def cm_def split: option.splits)
      from False have none: "map_of vs k = None"
        by (simp add: map_of_eq_None_iff)
      have t': "t' = Text (to_string v @ ''1'')"
        using inherited_key(2) [OF v] by (simp add: t'_def votes_lookup_def none v)
      show ?thesis
        unfolding assign_inherited [OF False proto v]
      proof (rule goal)
        show "distinct (map fst (vs @ [(k, t')]))"
          using dist False by simp
        show "map fst (take n (vs @ [(k, t')])) = map fst cm"
          using keys len by simp
        show "list_all is_count (map snd (take n (vs @ [(k, t')])))"
          using counts len by simp
        show "list_all is_text (map snd (drop n (vs @ [(k, t')])))"
          using texts len by (simp add: t')
      qed
    qed
  qed
  then show ?thesis
    by (simp add: vs_def t'_def)
qed

lemma well_formed_castVote:
  "well_formed e \<Longrightarrow> well_formed (snd (snd (castVote voterId candidateId onSuccess onError e)))"
  by (simp add: castVote_def Let_def well_formed_vote)

lemma well_formed_apply: "well_formed e \<Longrightarrow> well_formed (apply_operation e op)"
  by (cases op) (simp_all add: well_formed_registerVoter well_formed_castVote)

lemma well_formed_run:
  assumes "plain_ids candidates"
  shows "well_formed (run candidates ops)"
proof -
  have "well_formed e \<Longrightarrow> well_formed (foldl apply_operation e ops)" for e
    by (induction ops arbitrary: e) (simp_all add: well_formed_apply)
  then show ?thesis
    by (simp add: run_def fresh_well_formed fresh_createElection [OF assms])
qed


lemma known_count:
  assumes "well_formed e" and "p \<in> set (candidateMap e)"
  shows "or_zero (votes_lookup (votes e) (fst p)) = Count (votes_of e (fst p))"
proof -
  define n where "n = length (candidateMap e)"
  from assms(1) have dist: "distinct (map fst (votes e))"
    and keys: "map fst (take n (votes e)) = map fst (candidateMap e)"
    and counts: "list_all is_count (map snd (take n (votes e)))"
    by (simp_all add: well_formed_def n_def)
  from assms(2) have "fst p \<in> set (map fst (take n (votes e)))"
    by (simp add: keys)
  then obtain t where t: "(fst p, t) \<in> set (take n (votes e))"
    by auto
  with counts obtain m where m: "t = Count m"
    by (cases t) (auto simp: list_all_iff)
  from t have "(fst p, t) \<in> set (votes e)"
    by (rule in_set_takeD)
  with dist have "map_of (votes e) (fst p) = Some t"
    by simp
  with m show ?thesis
    by (simp add: votes_of_def votes_lookup_def)
qed

text \<open>The definitions that evaluate a sequence of calls on a given election.\<close>

lemmas eval_defs = run_def createElection_def add_candidate_def set_candidate_def
  candidate_lookup_def assign_def lookup_def Let_def key_before_def is_array_index_def
  is_digit_def index_value_def digit_value_def registerVoter_def castVote_def
  votes_lookup_def object_prototype_def handler_def

lemma voted_election_eq:
  "voted_election =
     \<lparr>candidateMap =
        [(''C1'', Obj [(''id'', Str ''C1''), (''name'', Str ''Sarpanch Ram''),
                       (''party'', Str ''Janata'')]),
         (''C2'', Obj [(''id'', Str ''C2''), (''name'', Str ''Pradhan Sita''),
                       (''party'', Str ''Lok'')])],
      candidateProto = None,
      votes = [(''C1'', Count 0), (''C2'', Count 1)],
      registered = [Str ''V1''], voted = [Str ''V1'']\<rparr>"
  by (simp add: voted_election_def example_candidates_def mohan_def eval_defs)


section \<open>Properties of castVote\<close>

text \<open>
  The test \<open>!candidateMap[candidateId]\<close> finds a candidate for every own key of
  \<open>candidateMap\<close>, and also for every name that \<open>Object.prototype\<close> has.
\<close>

lemma candidate_found_iff:
  assumes "list_all is_plain_object (map snd cm)"
  shows "truthy (lookup cm k) \<longleftrightarrow> k \<in> fst ` set cm \<or> k \<in> fst ` set object_prototype"
proof (cases "map_of cm k")
  case None
  then have out: "k \<notin> fst ` set cm"
    by (simp add: map_of_eq_None_iff)
  show ?thesis
  proof (cases "map_of object_prototype k")
    case inherited: None
    then have "k \<notin> fst ` set object_prototype"
      by (simp add: map_of_eq_None_iff)
    with None inherited out show ?thesis
      by (simp add: lookup_def)
  next
    case (Some v)
    then have v: "(k, v) \<in> set object_prototype"
      by (rule map_of_SomeD)
    then have "truthy v"
      by (auto simp: object_prototype_def)
    moreover from v have "k \<in> fst ` set object_prototype"
      by (rule rev_image_eqI) simp
    ultimately show ?thesis
      using None Some by (simp add: lookup_def)
  qed
next
  case (Some c)
  then have "(k, c) \<in> set cm"
    by (rule map_of_SomeD)
  with assms have "is_plain_object c" "k \<in> fst ` set cm"
    by (auto simp: list_all_iff intro: rev_image_eqI)
  with Some show ?thesis
    by (cases c) (simp_all add: lookup_def)
qed

text \<open>
  In a well-formed state, and for a candidate id that is not the name of a member of
  \<open>Object.prototype\<close>, the call does what C1 says: one handler is called and its value
  returned, the success handler with \<open>{voterId, candidateId}\<close> exactly when the voter is
  registered, the candidate is known and the voter has not voted, and the error handler
  with the first reason that applies otherwise. A handler that is not a function counts
  as one returning \<open>undefined\<close>.
\<close>

lemma castVote_known_keys:
  assumes "well_formed e" and "to_string candidateId \<notin> fst ` set object_prototype"
  shows "castVote voterId candidateId onSuccess onError e =
     (if voterId \<notin> set (registered e)
      then (OnError (Str ''voter_not_registered''),
            handler onError (Str ''voter_not_registered''), e)
      else if to_string candidateId \<notin> fst ` set (candidateMap e)
      then (OnError (Str ''candidate_not_found''),
            handler onError (Str ''candidate_not_found''), e)
      else if voterId \<in> set (voted e)
      then (OnError (Str ''already_voted''), handler onError (Str ''already_voted''), e)
      else (OnSuccess (Obj [(''voterId'', voterId), (''candidateId'', candidateId)]),
            handler onSuccess (Obj [(''voterId'', voterId), (''candidateId'', candidateId)]),
            e\<lparr>votes := assign (votes e) (to_string candidateId)
                          (Count (votes_of e (to_string candidateId) + 1)),
              voted := voted e @ [voterId]\<rparr>))"
proof -
  from assms(1) have objs: "list_all is_plain_object (map snd (candidateMap e))"
    by (simp add: well_formed_def)
  have "plus_one (or_zero (votes_lookup (votes e) (to_string candidateId)))
      = Count (votes_of e (to_string candidateId) + 1)"
    if "to_string candidateId \<in> fst ` set (candidateMap e)"
  proof -
    from that obtain p where "p \<in> set (candidateMap e)" "fst p = to_string candidateId"
      by auto
    with known_count [OF assms(1), of p] show ?thesis
      by simp
  qed
  with candidate_found_iff [OF objs, of "to_string candidateId"] assms(2) show ?thesis
    by (simp add: castVote_def Let_def well_formed_lookup [OF assms(1)])
qed

text \<open>
  C1 fails on the code. In the election of the source's example, with Mohan (V1)
  registered, \<open>castVote("V1", "toString", onSuccess, onError)\<close> names no candidate:
  \<open>toString\<close> is no key of \<open>candidateMap\<close>. C1 requires the error handler, with the
  reason \<open>candidate_not_found\<close>. But \<open>candidateMap["toString"]\<close> is the function that
  every object inherits, which is truthy: the success handler is called, its value is
  returned, the voter is marked as having voted, and \<open>votes\<close> gets a key \<open>toString\<close>
  whose value is a string.
\<close>

theorem castVote_inherited_candidate:
  "castVote (Str ''V1'') (Str ''toString'')
       (Some (\<lambda>r. Str ''voted!'')) (Some (\<lambda>r. Str (''error: '' @ to_string r)))
       example_election
     = (OnSuccess (Obj [(''voterId'', Str ''V1''), (''candidateId'', Str ''toString'')]),
        Str ''voted!'',
        example_election
          \<lparr>votes := [(''C1'', Count 0), (''C2'', Count 0),
                     (''toString'', Text ''function toString() { [native code] }1'')],
           voted := [Str ''V1'']\<rparr>)
   \<and> ''toString'' \<notin> fst ` set (candidateMap example_election)"
  by (simp add: example_election_eq castVote_def handler_def candidate_lookup_def lookup_def
      votes_lookup_def object_prototype_def assign_def key_before_def is_array_index_def
      is_digit_def Let_def)

text \<open>
  C10 fails on the code, by the same defect. After \<open>createElection\<close> with the two
  candidates of the example, the registration of Mohan and his call
  \<open>castVote("V1", "toString")\<close>, one voter has voted, and the vote counts of the
  candidates sum to 0, not to 1.
\<close>

theorem stray_vote_not_counted:
  "voted stray_election = [Str ''V1''] \<and> total_votes stray_election = 0
   \<and> votes stray_election
       = [(''C1'', Count 0), (''C2'', Count 0),
          (''toString'', Text ''function toString() { [native code] }1'')]"
  by (simp add: stray_election_def total_votes_def votes_of_def example_candidates_def
      mohan_def eval_defs)

text \<open>
  The first part of C10 holds in every state that is reached: who has voted is
  registered, and has voted once.
\<close>

lemma voted_registered_run:
  "set (voted (run candidates ops)) \<subseteq> set (registered (run candidates ops))
   \<and> distinct (voted (run candidates ops))"
proof -
  have step: "set (voted (apply_operation e op)) \<subseteq> set (registered (apply_operation e op))
      \<and> distinct (voted (apply_operation e op))"
    if "set (voted e) \<subseteq> set (registered e) \<and> distinct (voted e)" for e op
    using that by (cases op) (auto simp: registerVoter_def castVote_def Let_def)
  have "set (voted (foldl apply_operation e ops)) \<subseteq> set (registered (foldl apply_operation e ops))
      \<and> distinct (voted (foldl apply_operation e ops))"
    if "set (voted e) \<subseteq> set (registered e) \<and> distinct (voted e)" for e
    using that
  proof (induction ops arbitrary: e)
    case Nil
    then show ?case by simp
  next
    case (Cons op ops)
    from Cons.IH [OF step [OF Cons.prems, of op]] show ?case
      by simp
  qed
  moreover have "voted (createElection candidates) = []"
    by (simp add: createElection_voters)
  ultimately show ?thesis
    by (simp add: run_def)
qed

text \<open>
  The last part of C10 holds as long as no call names a member of \<open>Object.prototype\<close>
  as its candidate, and no candidate has the id \<open>__proto__\<close>: then the vote counts of
  the candidates sum to the number of voters who have voted.
\<close>

lemma sum_list_increment:
  "distinct ks \<Longrightarrow> k \<in> set ks \<Longrightarrow>
     sum_list (map (\<lambda>x. if x = k then g x + 1 else g x) ks) = sum_list (map g ks) + (1::nat)"
proof (induction ks)
  case Nil
  then show ?case by simp
next
  case (Cons x ks)
  show ?case
  proof (cases "x = k")
    case True
    with Cons.prems have "k \<notin> set ks"
      by simp
    then have "map (\<lambda>x. if x = k then g x + 1 else g x) ks = map g ks"
      by (intro map_cong) auto
    with True show ?thesis
      by (simp del: map_eq_conv)
  next
    case False
    with Cons show ?thesis
      by simp
  qed
qed

lemma votes_of_vote:
  assumes "k \<in> fst ` set (votes e)"
  shows "votes_of (e\<lparr>votes := assign (votes e) k (Count n), voted := vd\<rparr>) k'
           = (if k' = k then n else votes_of e k')"
  using assms by (simp add: votes_of_def votes_lookup_def map_of_assign)

lemma total_votes_vote:
  assumes wf: "well_formed e" and k: "k \<in> fst ` set (candidateMap e)"
  shows "total_votes (e\<lparr>votes := assign (votes e) k (Count (votes_of e k + 1)), voted := vd\<rparr>)
           = total_votes e + 1"
proof -
  from wf have keys: "map fst (take (length (candidateMap e)) (votes e)) = map fst (candidateMap e)"
    and dist: "distinct (map fst (votes e))"
    by (simp_all add: well_formed_def)
  from keys_subset [OF keys] k have own: "k \<in> fst ` set (votes e)"
    by blast
  have "distinct (map fst (take (length (candidateMap e)) (votes e)))"
    using dist by (simp flip: take_map)
  with keys have d: "distinct (map fst (candidateMap e))"
    by simp
  have "total_votes (e\<lparr>votes := assign (votes e) k (Count (votes_of e k + 1)), voted := vd\<rparr>)
      = sum_list (map (\<lambda>x. if x = k then votes_of e x + 1 else votes_of e x)
          (map fst (candidateMap e)))"
    by (simp add: total_votes_def votes_of_vote [OF own] comp_def cong: if_cong)
  also have "\<dots> = sum_list (map (votes_of e) (map fst (candidateMap e))) + 1"
    using d k by (intro sum_list_increment) simp_all
  finally show ?thesis
    by (simp add: total_votes_def comp_def)
qed

lemma total_votes_step:
  assumes "well_formed e" and "total_votes e = length (voted e)" and "known_candidate op"
  shows "total_votes (apply_operation e op) = length (voted (apply_operation e op))"
proof (cases op)
  case (RegisterVoter voter)
  with assms(2) show ?thesis
    by (simp add: registerVoter_def total_votes_def votes_of_def)
next
  case (CastVote voterId candidateId onSuccess onError)
  with assms(3) have "to_string candidateId \<notin> fst ` set object_prototype"
    by simp
  from castVote_known_keys [OF assms(1) this, of voterId onSuccess onError]
    total_votes_vote [OF assms(1), of "to_string candidateId" "voted e @ [voterId]"] assms(2)
  show ?thesis
    by (simp add: CastVote)
qed

lemma total_votes_run:
  assumes "list_all known_candidate ops" and plain: "plain_ids candidates"
  shows "total_votes (run candidates ops) = length (voted (run candidates ops))"
proof -
  have "well_formed (foldl apply_operation e ops)
      \<and> total_votes (foldl apply_operation e ops) = length (voted (foldl apply_operation e ops))"
    if "well_formed e" "total_votes e = length (voted e)" for e
    using that assms(1)
  proof (induction ops arbitrary: e)
    case Nil
    then show ?case by simp
  next
    case (Cons op ops)
    from Cons.prems have "well_formed (apply_operation e op)"
      "total_votes (apply_operation e op) = length (voted (apply_operation e op))"
      by (simp_all add: well_formed_apply total_votes_step)
    from Cons.IH [OF this] Cons.prems(3) show ?case
      by simp
  qed
  moreover have "total_votes (createElection candidates) = 0"
  proof -
    have "fresh e \<Longrightarrow> total_votes e = 0" for e
    proof -
      assume f: "fresh e"
      have "votes_of e (fst p) = 0" if "p \<in> set (candidateMap e)" for p
      proof -
        from f that have "fst p \<in> set (map fst (votes e))"
          by (simp add: fresh_def)
        then obtain t where t: "(fst p, t) \<in> set (votes e)"
          by auto
        with f have "t = Count 0"
          by (auto simp: fresh_def list_all_iff)
        moreover from f have "distinct (map fst (votes e))"
          by (auto simp: fresh_def)
        then have "map_of (votes e) (fst p) = Some t"
          using t by (rule map_of_is_SomeI)
        ultimately show ?thesis
          by (simp add: votes_of_def votes_lookup_def)
      qed
      then show ?thesis
        by (simp add: total_votes_def)
    qed
    then show ?thesis
      using fresh_createElection [OF plain] by blast
  qed
  moreover have "voted (createElection candidates) = []"
    by (simp add: createElection_voters)
  ultimately show ?thesis
    using fresh_well_formed [OF fresh_createElection [OF plain]] by (simp add: run_def)
qed

section \<open>Properties of getWinner\<close>









section \<open>Properties of getResults\<close>

text \<open>
  Insertion sort gives a permutation; it sorts when the comparator is consistent on the
  values; and with a comparator that compares keys it is the stable sort by that key.
\<close>

lemma consistentD:
  assumes "consistent cmp xs" and "a \<in> set xs" and "b \<in> set xs" and "c \<in> set xs"
  shows "cmp a a = 0"
    and "cmp a b = 0 \<Longrightarrow> cmp b a = 0"
    and "cmp a b < 0 \<Longrightarrow> cmp b a > 0"
    and "cmp a b > 0 \<Longrightarrow> cmp b a < 0"
    and "cmp a b = 0 \<Longrightarrow> cmp b c = 0 \<Longrightarrow> cmp a c = 0"
    and "cmp a b < 0 \<Longrightarrow> cmp b c < 0 \<Longrightarrow> cmp a c < 0"
    and "cmp a b > 0 \<Longrightarrow> cmp b c > 0 \<Longrightarrow> cmp a c > 0"
  using assms unfolding consistent_def by blast+

lemma consistent_total:
  assumes "consistent cmp xs" and "a \<in> set xs" and "b \<in> set xs"
  shows "cmp a b \<le> 0 \<or> cmp b a \<le> 0"
  using consistentD(4) [OF assms assms(2)] by force

lemma consistent_trans:
  assumes c: "consistent cmp xs" and a: "a \<in> set xs" and b: "b \<in> set xs" and c': "c \<in> set xs"
    and ab: "cmp a b \<le> 0" and bc: "cmp b c \<le> 0"
  shows "cmp a c \<le> 0"
proof (rule ccontr)
  assume "\<not> cmp a c \<le> 0"
  then have "cmp a c > 0"
    by simp
  then have ca: "cmp c a < 0"
    by (rule consistentD(4) [OF c a c' a])
  show False
  proof (cases "cmp a b < 0")
    case True
    with ca have cb: "cmp c b < 0"
      by (intro consistentD(6) [OF c c' a b])
    show False
    proof (cases "cmp b c < 0")
      case True
      with cb consistentD(3) [OF c b c' a] show False
        by force
    next
      case False
      with bc have "cmp b c = 0"
        by simp
      with cb consistentD(2) [OF c b c' a] show False
        by force
    qed
  next
    case False
    with ab have "cmp a b = 0"
      by simp
    then have ba: "cmp b a = 0"
      by (rule consistentD(2) [OF c a b a])
    show False
    proof (cases "cmp b c < 0")
      case True
      with ca have "cmp b a < 0"
        by (intro consistentD(6) [OF c b c' a])
      with ba show False
        by simp
    next
      case False
      with bc have "cmp b c = 0"
        by simp
      with \<open>cmp a b = 0\<close> have "cmp a c = 0"
        by (intro consistentD(5) [OF c a b c'])
      with \<open>cmp a c > 0\<close> show False
        by simp
    qed
  qed
qed

lemma mset_insert_by: "mset (insert_by cmp x ys) = add_mset x (mset ys)"
  by (induction ys) auto

lemma mset_js_sort: "mset (js_sort cmp xs) = mset xs"
  by (induction xs) (simp_all add: js_sort_def mset_insert_by)

lemma set_js_sort: "set (js_sort cmp xs) = set xs"
  by (metis mset_js_sort set_mset_mset)

lemma sorted_insert_by:
  assumes tr: "\<And>a b c. a \<in> A \<Longrightarrow> b \<in> A \<Longrightarrow> c \<in> A \<Longrightarrow> cmp a b \<le> 0 \<Longrightarrow> cmp b c \<le> 0
                 \<Longrightarrow> cmp a c \<le> 0"
    and tot: "\<And>a b. a \<in> A \<Longrightarrow> b \<in> A \<Longrightarrow> cmp a b \<le> 0 \<or> cmp b a \<le> 0"
    and "sorted_wrt (\<lambda>a b. cmp a b \<le> 0) ys" and "x \<in> A" and "set ys \<subseteq> A"
  shows "sorted_wrt (\<lambda>a b. cmp a b \<le> 0) (insert_by cmp x ys)"
  using assms(3-)
proof (induction ys)
  case Nil
  then show ?case by simp
next
  case (Cons y ys)
  show ?case
  proof (cases "cmp x y \<le> 0")
    case True
    have "cmp x z \<le> 0" if "z \<in> set ys" for z
      using tr [of x y z] True that Cons.prems by auto
    with True Cons.prems show ?thesis
      by auto
  next
    case False
    with tot [of x y] Cons.prems have "cmp y x \<le> 0"
      by auto
    with False Cons show ?thesis
      by (auto simp: set_mset_mset [symmetric] mset_insert_by simp del: set_mset_mset)
  qed
qed

lemma sorted_js_sort:
  assumes tr: "\<And>a b c. a \<in> A \<Longrightarrow> b \<in> A \<Longrightarrow> c \<in> A \<Longrightarrow> cmp a b \<le> 0 \<Longrightarrow> cmp b c \<le> 0
                 \<Longrightarrow> cmp a c \<le> 0"
    and tot: "\<And>a b. a \<in> A \<Longrightarrow> b \<in> A \<Longrightarrow> cmp a b \<le> 0 \<or> cmp b a \<le> 0"
    and "set xs \<subseteq> A"
  shows "sorted_wrt (\<lambda>a b. cmp a b \<le> 0) (js_sort cmp xs)"
  using assms(3)
proof (induction xs)
  case Nil
  then show ?case by (simp add: js_sort_def)
next
  case (Cons x xs)
  then have "sorted_wrt (\<lambda>a b. cmp a b \<le> 0) (js_sort cmp xs)"
    by simp
  then have "sorted_wrt (\<lambda>a b. cmp a b \<le> 0) (insert_by cmp x (js_sort cmp xs))"
    using Cons.prems by (intro sorted_insert_by [of A cmp, OF tr tot]) (auto simp: set_js_sort)
  then show ?case
    by (simp add: js_sort_def)
qed

lemma insert_by_key:
  assumes "\<And>y. y \<in> set ys \<Longrightarrow> cmp x y \<le> 0 \<longleftrightarrow> key x \<le> key y"
  shows "insert_by cmp x ys = insort_key key x ys"
  using assms by (induction ys) auto

lemma js_sort_key:
  assumes "\<And>x y. x \<in> set xs \<Longrightarrow> y \<in> set xs \<Longrightarrow> cmp x y \<le> 0 \<longleftrightarrow> key x \<le> key y"
  shows "js_sort cmp xs = sort_key key xs"
  using assms
proof (induction xs)
  case Nil
  then show ?case by (simp add: js_sort_def)
next
  case (Cons x xs)
  then have eq: "js_sort cmp xs = sort_key key xs"
    by simp
  have "insert_by cmp x (sort_key key xs) = insort_key key x (sort_key key xs)"
    using Cons.prems by (intro insert_by_key) auto
  with eq show ?case
    by (simp add: js_sort_def sort_key_def)
qed

lemma those_map:
  "(\<And>x. x \<in> set xs \<Longrightarrow> f x = Some (g x)) \<Longrightarrow> those (map f xs) = Some (map g xs)"
  by (induction xs) simp_all

lemma well_formed_distinct: "well_formed e \<Longrightarrow> distinct (map fst (candidateMap e))"
proof -
  assume wf: "well_formed e"
  then have "distinct (take (length (candidateMap e)) (map fst (votes e)))"
    by (intro distinct_take) (simp add: well_formed_def)
  moreover from wf
  have "map fst (take (length (candidateMap e)) (votes e)) = map fst (candidateMap e)"
    by (simp add: well_formed_def)
  ultimately show ?thesis
    by (simp add: take_map)
qed

lemma results_records:
  assumes "well_formed e"
  shows "those (map (result_of e) (candidate_keys e)) = Some (records e)"
proof -
  have "result_of e (fst p) =
      Some \<lparr>r_id = field (snd p) ''id'', r_name = field (snd p) ''name'',
        r_party = field (snd p) ''party'', r_votes = Count (votes_of e (fst p))\<rparr>"
    if p: "p \<in> set (candidateMap e)" for p
  proof -
    from p have "(fst p, snd p) \<in> set (candidateMap e)"
      by simp
    with well_formed_distinct [OF assms] have "map_of (candidateMap e) (fst p) = Some (snd p)"
      by (rule map_of_is_SomeI)
    then have c: "candidate_lookup e (fst p) = snd p"
      by (simp add: well_formed_lookup [OF assms] lookup_def)
    from assms p have "is_plain_object (snd p)"
      by (simp add: well_formed_def list_all_iff)
    then have "snd p \<noteq> Undefined" "snd p \<noteq> Null"
      by auto
    with c known_count [OF assms p] show ?thesis
      by (simp add: result_of_def Let_def)
  qed
  then have "those (map (\<lambda>p. result_of e (fst p)) (candidateMap e)) = Some (records e)"
    unfolding records_def by (rule those_map)
  then show ?thesis
    by (simp add: well_formed_keys [OF assms] comp_def)
qed

lemma records_counts: "r \<in> set (records e) \<Longrightarrow> \<exists>n. r_votes r = Count n"
  by (auto simp: records_def)

lemma consistent_key:
  fixes key :: "'a \<Rightarrow> int"
  assumes "\<And>a b. a \<in> set xs \<Longrightarrow> b \<in> set xs \<Longrightarrow> cmp a b = key a - key b"
  shows "consistent cmp xs"
  unfolding consistent_def
proof (intro ballI conjI impI)
  fix a b c
  assume in_xs: "a \<in> set xs" "b \<in> set xs" "c \<in> set xs"
  note eq = assms [OF in_xs(1) in_xs(1)] assms [OF in_xs(1) in_xs(2)]
    assms [OF in_xs(2) in_xs(1)] assms [OF in_xs(2) in_xs(3)] assms [OF in_xs(1) in_xs(3)]
  show "cmp a a = 0"
    by (simp add: eq)
  show "cmp b a = 0" if "cmp a b = 0"
    using that by (simp add: eq)
  show "0 < cmp b a" if "cmp a b < 0"
    using that by (simp add: eq)
  show "cmp b a < 0" if "0 < cmp a b"
    using that by (simp add: eq)
  show "cmp a c = 0" if "cmp a b = 0 \<and> cmp b c = 0"
    using that by (simp add: eq)
  show "cmp a c < 0" if "cmp a b < 0 \<and> cmp b c < 0"
    using that by (simp add: eq)
  show "0 < cmp a c" if "0 < cmp a b \<and> 0 < cmp b c"
    using that by (simp add: eq)
qed

lemma counts_consistent:
  assumes "\<And>r. r \<in> set rs \<Longrightarrow> \<exists>n. r_votes r = Count n"
  shows "consistent_comparator (\<lambda>a b. tally_minus (r_votes b) (r_votes a)) rs"
  unfolding consistent_comparator_def
proof (intro conjI ballI)
  fix a b
  assume "a \<in> set rs" "b \<in> set rs"
  with assms obtain i j where "r_votes a = Count i" "r_votes b = Count j"
    by blast
  then show "tally_minus (r_votes b) (r_votes a) \<noteq> NaN"
    by simp
next
  show "consistent (\<lambda>a b. sort_value (tally_minus (r_votes b) (r_votes a))) rs"
  proof (rule consistent_key [where key = "\<lambda>r. - int (count_of (r_votes r))"])
    fix a b
    assume "a \<in> set rs" "b \<in> set rs"
    with assms obtain i j where "r_votes a = Count i" "r_votes b = Count j"
      by blast
    then show "sort_value (tally_minus (r_votes b) (r_votes a))
        = - int (count_of (r_votes a)) - - int (count_of (r_votes b))"
      by simp
  qed
qed

text \<open>
  Insertion sort is stable: the values that a consistent comparator finds equal to a
  given one stay in the order they had.
\<close>

lemma filter_insert_by:
  assumes c: "consistent cmp zs" and a: "a \<in> set zs" and x: "x \<in> set zs"
    and ys: "set ys \<subseteq> set zs"
  shows "filter (\<lambda>r. cmp a r = 0) (insert_by cmp x ys)
           = (if cmp a x = 0 then x # filter (\<lambda>r. cmp a r = 0) ys
              else filter (\<lambda>r. cmp a r = 0) ys)"
  using ys
proof (induction ys)
  case Nil
  then show ?case by simp
next
  case (Cons y ys)
  then have y: "y \<in> set zs" and IH: "filter (\<lambda>r. cmp a r = 0) (insert_by cmp x ys)
           = (if cmp a x = 0 then x # filter (\<lambda>r. cmp a r = 0) ys
              else filter (\<lambda>r. cmp a r = 0) ys)"
    by simp_all
  show ?case
  proof (cases "cmp x y \<le> 0")
    case True
    then show ?thesis
      by simp
  next
    case False
    have "cmp a y \<noteq> 0" if "cmp a x = 0"
    proof
      assume "cmp a y = 0"
      moreover from that have "cmp x a = 0"
        by (rule consistentD(2) [OF c a x a])
      ultimately have "cmp x y = 0"
        by (intro consistentD(5) [OF c x a y])
      with False show False
        by simp
    qed
    with False IH show ?thesis
      by auto
  qed
qed

lemma filter_js_sort:
  assumes c: "consistent cmp zs" and a: "a \<in> set zs" and xs: "set xs \<subseteq> set zs"
  shows "filter (\<lambda>r. cmp a r = 0) (js_sort cmp xs) = filter (\<lambda>r. cmp a r = 0) xs"
  using xs
proof (induction xs)
  case Nil
  then show ?case by (simp add: js_sort_def)
next
  case (Cons x xs)
  then have "filter (\<lambda>r. cmp a r = 0) (js_sort cmp xs) = filter (\<lambda>r. cmp a r = 0) xs"
    and "x \<in> set zs" and "set (js_sort cmp xs) \<subseteq> set zs"
    by (simp_all add: set_js_sort)
  with filter_insert_by [OF c a, of x "js_sort cmp xs"] show ?case
    by (simp add: js_sort_def)
qed

lemma voted_records:
  "records voted_election =
     [\<lparr>r_id = Str ''C1'', r_name = Str ''Sarpanch Ram'', r_party = Str ''Janata'',
        r_votes = Count 0\<rparr>,
      \<lparr>r_id = Str ''C2'', r_name = Str ''Pradhan Sita'', r_party = Str ''Lok'',
        r_votes = Count 1\<rparr>]"
  by (simp add: records_def voted_election_eq lookup_def votes_of_def votes_lookup_def)

text \<open>
  C4 as it is stated fails: the order of the map's keys is not the order of insertion
  when some ids are array indices. For the candidates 2 and 1, inserted in this order and
  both without votes, the results list 1 before 2.

  It also fails when a candidate has the id \<open>__proto__\<close>, for which \<open>createElection\<close>
  makes the copy of the candidate the prototype of \<open>candidateMap\<close> instead of a property
  of it. After \<open>createElection([{id: "__proto__", name: "X", party: "P"}])\<close> the loop of
  \<open>getResults\<close> visits the inherited keys \<open>id\<close>, \<open>name\<close> and \<open>party\<close>, and the results are
  three records without id, name and party, none of them the record of the candidate.
\<close>

theorem getResults_insertion_counterexample:
  "getResults None (createElection tie_candidates)
     = Results
         [\<lparr>r_id = Str ''1'', r_name = Str ''Ram'', r_party = Str ''Janata'', r_votes = Count 0\<rparr>,
          \<lparr>r_id = Str ''2'', r_name = Str ''Sita'', r_party = Str ''Lok'', r_votes = Count 0\<rparr>]
   \<and> results_by_insertion tie_candidates (createElection tie_candidates)
     = [\<lparr>r_id = Str ''2'', r_name = Str ''Sita'', r_party = Str ''Lok'', r_votes = Count 0\<rparr>,
        \<lparr>r_id = Str ''1'', r_name = Str ''Ram'', r_party = Str ''Janata'', r_votes = Count 0\<rparr>]
   \<and> getResults None (createElection proto_candidates)
     = Results
         [\<lparr>r_id = Undefined, r_name = Undefined, r_party = Undefined, r_votes = Count 0\<rparr>,
          \<lparr>r_id = Undefined, r_name = Undefined, r_party = Undefined, r_votes = Count 0\<rparr>,
          \<lparr>r_id = Undefined, r_name = Undefined, r_party = Undefined, r_votes = Count 0\<rparr>]
   \<and> results_by_insertion proto_candidates (createElection proto_candidates)
     = [\<lparr>r_id = Str ''__proto__'', r_name = Str ''X'', r_party = Str ''P'',
         r_votes = Count 0\<rparr>]"
  by (simp add: getResults_def js_sort_def consistent_comparator_def consistent_def
      result_of_def candidate_keys_def
      results_by_insertion_def valid_candidates_def tie_candidates_def proto_candidates_def
      candidate_key_def votes_of_def votes_lookup_def createElection_def add_candidate_def
      set_candidate_def candidate_lookup_def assign_def lookup_def Let_def key_before_def
      is_array_index_def is_digit_def index_value_def digit_value_def object_prototype_def)

text \<open>
  C4, amended. In every state that an election reaches whose candidates do not have the
  id \<open>__proto__\<close> (a well-formed state), \<open>getResults()\<close> without a comparator returns the
  records \<open>{id, name, party, votes}\<close>, one for every candidate, sorted by descending
  vote count, the records of one count in the order in which the keys of the candidate
  map are enumerated (the ids that are array indices in ascending numeric order, then
  the other ids in the order of insertion). With a comparator that is consistent on these
  records it returns them sorted by the comparator, records that compare equal in the
  order of enumeration. With any other comparator it returns the same records in an
  order that the implementation chooses.
\<close>

theorem getResults_spec:
  assumes "well_formed e"
  shows "(\<exists>rs. getResults None e = Results rs
            \<and> rs = sort_key (\<lambda>r. - int (count_of (r_votes r))) (records e)
            \<and> mset rs = mset (records e)
            \<and> sorted_wrt (\<lambda>a b. count_of (r_votes a) \<ge> count_of (r_votes b)) rs
            \<and> (\<forall>v. filter (\<lambda>r. r_votes r = Count v) rs
                    = filter (\<lambda>r. r_votes r = Count v) (records e)))
    \<and> (\<forall>f. consistent_comparator f (records e) \<longrightarrow>
            (\<exists>rs. getResults (Some f) e = Results rs
               \<and> rs = js_sort (\<lambda>a b. sort_value (f a b)) (records e)
               \<and> mset rs = mset (records e)
               \<and> sorted_wrt (\<lambda>a b. sort_value (f a b) \<le> 0) rs
               \<and> (\<forall>a \<in> set (records e).
                     filter (\<lambda>r. sort_value (f a r) = 0) rs
                       = filter (\<lambda>r. sort_value (f a r) = 0) (records e))))
    \<and> (\<forall>f. \<not> consistent_comparator f (records e) \<longrightarrow>
            getResults (Some f) e = SomeOrder (records e))"
proof -
  let ?key = "\<lambda>r. - int (count_of (r_votes r))"
  let ?cmp = "\<lambda>a b. sort_value (tally_minus (r_votes b) (r_votes a))"
  let ?rs = "sort_key ?key (records e)"
  have cmp: "?cmp x y \<le> 0 \<longleftrightarrow> ?key x \<le> ?key y"
    if "x \<in> set (records e)" "y \<in> set (records e)" for x y
    using records_counts [OF that(1)] records_counts [OF that(2)] by auto
  have "consistent_comparator (\<lambda>a b. tally_minus (r_votes b) (r_votes a)) (records e)"
    by (rule counts_consistent) (rule records_counts)
  then have default: "getResults None e = Results ?rs"
    using js_sort_key [of "records e" ?cmp ?key] cmp
    by (simp add: getResults_def results_records [OF assms])
  have "sorted (map ?key ?rs)"
    by (rule sorted_sort_key)
  then have desc: "sorted_wrt (\<lambda>a b. count_of (r_votes a) \<ge> count_of (r_votes b)) ?rs"
    unfolding sorted_map by (rule sorted_wrt_mono_rel [rotated]) simp
  have stable: "filter (\<lambda>r. r_votes r = Count v) ?rs
            = filter (\<lambda>r. r_votes r = Count v) (records e)" for v
  proof -
    have "filter (\<lambda>r. ?key r = - int v) ?rs = filter (\<lambda>r. ?key r = - int v) (records e)"
      by (rule sort_key_stable)
    moreover have "filter (\<lambda>r. r_votes r = Count v) xs = filter (\<lambda>r. ?key r = - int v) xs"
      if "set xs \<subseteq> set (records e)" for xs
    proof (rule filter_cong [OF refl])
      fix r
      assume "r \<in> set xs"
      with that obtain n where "r_votes r = Count n"
        using records_counts [of r e] by blast
      then show "(r_votes r = Count v) = (?key r = - int v)"
        by auto
    qed
    ultimately show ?thesis
      by simp
  qed
  have given: "getResults (Some f) e = Results (js_sort (\<lambda>a b. sort_value (f a b)) (records e))"
    if "consistent_comparator f (records e)" for f
    using that by (simp add: getResults_def results_records [OF assms])
  have srt: "sorted_wrt (\<lambda>a b. sort_value (f a b) \<le> 0)
      (js_sort (\<lambda>a b. sort_value (f a b)) (records e))"
    if "consistent_comparator f (records e)" for f
  proof (rule sorted_js_sort [where A = "set (records e)"])
    from that have c: "consistent (\<lambda>a b. sort_value (f a b)) (records e)"
      by (simp add: consistent_comparator_def)
    show "sort_value (f a c) \<le> 0"
      if "a \<in> set (records e)" "b \<in> set (records e)" "c \<in> set (records e)"
        "sort_value (f a b) \<le> 0" "sort_value (f b c) \<le> 0" for a b c
      using c that by (rule consistent_trans)
    show "sort_value (f a b) \<le> 0 \<or> sort_value (f b a) \<le> 0"
      if "a \<in> set (records e)" "b \<in> set (records e)" for a b
      using c that by (rule consistent_total)
  qed simp
  have equal: "filter (\<lambda>r. sort_value (f a r) = 0)
        (js_sort (\<lambda>a b. sort_value (f a b)) (records e))
      = filter (\<lambda>r. sort_value (f a r) = 0) (records e)"
    if "consistent_comparator f (records e)" "a \<in> set (records e)" for f a
  proof (rule filter_js_sort [where zs = "records e"])
    from that(1) show "consistent (\<lambda>a b. sort_value (f a b)) (records e)"
      by (simp add: consistent_comparator_def)
  qed (use that(2) in simp_all)
  have other: "getResults (Some f) e = SomeOrder (records e)"
    if "\<not> consistent_comparator f (records e)" for f
    using that by (simp add: getResults_def results_records [OF assms])
  have m0: "mset ?rs = mset (records e)"
    by simp
  have first: "\<exists>rs. getResults None e = Results rs
            \<and> rs = sort_key (\<lambda>r. - int (count_of (r_votes r))) (records e)
            \<and> mset rs = mset (records e)
            \<and> sorted_wrt (\<lambda>a b. count_of (r_votes a) \<ge> count_of (r_votes b)) rs
            \<and> (\<forall>v. filter (\<lambda>r. r_votes r = Count v) rs
                    = filter (\<lambda>r. r_votes r = Count v) (records e))"
    using default m0 desc stable by blast
  have second: "\<exists>rs. getResults (Some f) e = Results rs
               \<and> rs = js_sort (\<lambda>a b. sort_value (f a b)) (records e)
               \<and> mset rs = mset (records e)
               \<and> sorted_wrt (\<lambda>a b. sort_value (f a b) \<le> 0) rs
               \<and> (\<forall>a \<in> set (records e).
                     filter (\<lambda>r. sort_value (f a r) = 0) rs
                       = filter (\<lambda>r. sort_value (f a r) = 0) (records e))"
    if "consistent_comparator f (records e)" for f
    using given [OF that] srt [OF that] equal [OF that] mset_js_sort by blast
  from first second other show ?thesis
    by blast
qed

text \<open>
  After Mohan's vote for C2, the results list C2 with one vote before C1 with none; the
  results by name list Pradhan Sita before Sarpanch Ram; and with the comparator that
  always answers \<open>-1\<close>, which is not consistent, the order is not determined.
\<close>

theorem getResults_spec_witness:
  "getResults None voted_election
     = Results
         [\<lparr>r_id = Str ''C2'', r_name = Str ''Pradhan Sita'', r_party = Str ''Lok'',
            r_votes = Count 1\<rparr>,
          \<lparr>r_id = Str ''C1'', r_name = Str ''Sarpanch Ram'', r_party = Str ''Janata'',
            r_votes = Count 0\<rparr>]
   \<and> getResults (Some by_name) voted_election
     = Results
         [\<lparr>r_id = Str ''C2'', r_name = Str ''Pradhan Sita'', r_party = Str ''Lok'',
            r_votes = Count 1\<rparr>,
          \<lparr>r_id = Str ''C1'', r_name = Str ''Sarpanch Ram'', r_party = Str ''Janata'',
            r_votes = Count 0\<rparr>]
   \<and> getResults (Some (\<lambda>a b. Fin (- 1))) voted_election
     = SomeOrder
         [\<lparr>r_id = Str ''C1'', r_name = Str ''Sarpanch Ram'', r_party = Str ''Janata'',
            r_votes = Count 0\<rparr>,
          \<lparr>r_id = Str ''C2'', r_name = Str ''Pradhan Sita'', r_party = Str ''Lok'',
            r_votes = Count 1\<rparr>]"
proof -
  have "plain_ids example_candidates"
    by (simp add: plain_ids_def valid_candidates_def example_candidates_def candidate_key_def
        lookup_def)
  then have wf: "well_formed voted_election"
    unfolding voted_election_def by (rule well_formed_run)
  have "consistent_comparator by_name (records voted_election)"
    by (simp add: voted_records consistent_comparator_def consistent_def by_name_def)
  moreover
  have "\<not> consistent_comparator (\<lambda>a b. Fin (- 1)) (records voted_election)"
    by (auto simp: voted_records consistent_comparator_def consistent_def)
  ultimately show ?thesis
    using getResults_spec [OF wf]
    by (simp add: voted_records js_sort_def by_name_def)
qed

section \<open>Properties of the validator\<close>






section \<open>Properties of tallyPure\<close>

text \<open>
  For a candidate id that is not the name of a member of \<open>Object.prototype\<close>,
  \<open>tallyPure\<close> does what C5 says: the new tally counts 1 for an id that was absent and
  one more for an id that had a count, and it agrees with the old tally on every other
  key; a falsy id gives a copy. The old tally is a value, which nothing changes.
\<close>

lemma tallyPure_known_key:
  assumes "truthy candidateId" and "to_string candidateId \<notin> fst ` set object_prototype"
  shows "\<exists>new. tallyPure (Obj ps) candidateId = Obj new
           \<and> (map_of ps (to_string candidateId) = None \<longrightarrow>
                map_of new (to_string candidateId) = Some (Num (Fin 1)))
           \<and> (\<forall>n. map_of ps (to_string candidateId) = Some (Num (Fin n)) \<longrightarrow>
                map_of new (to_string candidateId) = Some (Num (Fin (n + 1))))
           \<and> (\<forall>k. k \<noteq> to_string candidateId \<longrightarrow> map_of new k = map_of ps k)"
proof -
  define k where "k = to_string candidateId"
  have proto: "k \<noteq> ''__proto__''" "map_of object_prototype k = None"
    using assms(2) by (auto simp: k_def object_prototype_def)
  define v where "v = add_one (if truthy (lookup ps k) then lookup ps k else Num (Fin 0))"
  have eq: "tallyPure (Obj ps) candidateId = Obj (assign ps k v)"
    using assms(1) by (simp add: tallyPure_def k_def v_def Let_def)
  have "v = Num (Fin 1)" if "map_of ps k = None"
    using that proto by (simp add: v_def lookup_def)
  moreover have "v = Num (Fin (n + 1))" if "map_of ps k = Some (Num (Fin n))" for n
    using that by (simp add: v_def lookup_def)
  ultimately show ?thesis
    using proto(1) unfolding eq k_def [symmetric] by (simp add: map_of_assign)
qed

lemma tallyPure_falsy:
  "\<not> truthy candidateId \<Longrightarrow>
     tallyPure currentTally candidateId
       = Obj (spread (if is_object currentTally then currentTally else Obj []))"
  by (simp add: tallyPure_def is_object_iff Let_def)

text \<open>
  C5 fails on the code. The tally \<open>{C1: 5}\<close> has no count for \<open>toString\<close>, so the new
  tally should count 1 for it; but \<open>newTally["toString"]\<close> reads the function inherited
  from \<open>Object.prototype\<close>, which is truthy, and the new tally holds the string made of
  that function's text and \<open>1\<close>.
\<close>

theorem tallyPure_inherited_key:
  "tallyPure (Obj [(''C1'', Num (Fin 5))]) (Str ''toString'')
     = Obj [(''C1'', Num (Fin 5)),
            (''toString'', Str ''function toString() { [native code] }1'')]"
  by (simp add: tallyPure_def lookup_def object_prototype_def assign_def key_before_def
      is_array_index_def is_digit_def Let_def)

section \<open>Properties of the region counter\<close>














section \<open>Properties of the festival manager\<close>

lemma name_taken_iff: "name_taken n fs \<longleftrightarrow> n \<in> f_name ` set fs"
  by (induction fs) auto

lemma upcoming_from_filter: "upcoming_from cur fs = filter (\<lambda>f. cur \<le> f_date f) fs"
  by (induction fs) auto

lemma insert_by_localeCompare:
  "insert_by (\<lambda>a b. localeCompare (k a) (k b)) x ys = insort_key k x ys"
  by (induction ys) (auto simp: localeCompare_def)

lemma js_sort_localeCompare:
  "js_sort (\<lambda>a b. localeCompare (k a) (k b)) xs = sort_key k xs"
proof -
  have "insert_by (\<lambda>a b. localeCompare (k a) (k b)) = insort_key k"
    by (intro ext) (rule insert_by_localeCompare)
  then show ?thesis
    by (simp add: js_sort_def sort_key_def)
qed

text \<open>
  C8. \<open>addFestival(name, date, type)\<close> returns \<open>-1\<close>, and leaves the list as it is, when
  \<open>name\<close> is not a non-empty string, or \<open>date\<close> is not a string of the form YYYY-MM-DD, or
  \<open>type\<close> is not one of the three strings religious, national and cultural, or a festival
  of that name is in the list. In every other case it appends the record of the three
  arguments and returns the new number of festivals, one more than before.
\<close>

theorem addFestival_spec:
  "(\<not> nonempty_string name \<or> \<not> isValidDateStr date
      \<or> type \<notin> {Str ''religious'', Str ''national'', Str ''cultural''}
      \<or> (\<exists>f \<in> set festivals. name = Str (f_name f))
     \<longrightarrow> addFestival name date type festivals = (- 1, festivals))
   \<and> (\<not> (\<not> nonempty_string name \<or> \<not> isValidDateStr date
      \<or> type \<notin> {Str ''religious'', Str ''national'', Str ''cultural''}
      \<or> (\<exists>f \<in> set festivals. name = Str (f_name f)))
     \<longrightarrow> (\<forall>n d t. name = Str n \<and> date = Str d \<and> type = Str t \<longrightarrow>
            addFestival name date type festivals
              = (int (length festivals) + 1,
                 festivals @ [\<lparr>f_name = n, f_date = d, f_type = t\<rparr>]))
         \<and> (\<exists>n d t. name = Str n \<and> date = Str d \<and> type = Str t))"
proof (cases "\<exists>n d t. name = Str n \<and> date = Str d \<and> type = Str t")
  case True
  then obtain n d t where [simp]: "name = Str n" "date = Str d" "type = Str t"
    by blast
  show ?thesis
    by (auto simp: addFestival_def name_taken_iff validTypes_def)
next
  case False
  then have "addFestival name date type festivals = (- 1, festivals)"
    by (auto simp: addFestival_def split: jsval.splits)
  moreover from False
  have "\<not> nonempty_string name \<or> \<not> isValidDateStr date
      \<or> type \<notin> {Str ''religious'', Str ''national'', Str ''cultural''}"
    by (cases name; cases date; cases type) auto
  ultimately show ?thesis
    by blast
qed

text \<open>
  The example of the specification: on a fresh manager Diwali is accepted and the call
  returns 1; added again, it is a duplicate and the call returns \<open>-1\<close>.
\<close>

theorem addFestival_spec_witness:
  "addFestival (Str ''Diwali'') (Str ''2025-10-20'') (Str ''religious'') []
     = (1, [\<lparr>f_name = ''Diwali'', f_date = ''2025-10-20'', f_type = ''religious''\<rparr>])
   \<and> addFestival (Str ''Diwali'') (Str ''2025-10-20'') (Str ''religious'')
       [\<lparr>f_name = ''Diwali'', f_date = ''2025-10-20'', f_type = ''religious''\<rparr>]
     = (- 1, [\<lparr>f_name = ''Diwali'', f_date = ''2025-10-20'', f_type = ''religious''\<rparr>])"
  using addFestival_spec [of "Str ''Diwali''" "Str ''2025-10-20''" "Str ''religious''" "[]"]
    addFestival_spec [of "Str ''Diwali''" "Str ''2025-10-20''" "Str ''religious''"
      "[\<lparr>f_name = ''Diwali'', f_date = ''2025-10-20'', f_type = ''religious''\<rparr>]"]
  by (simp add: date_pattern_def is_digit_def)

text \<open>
  C9. \<open>getUpcoming(currentDate, n)\<close> returns the empty list when \<open>currentDate\<close> is not a
  string of the form YYYY-MM-DD. Otherwise it returns the first \<open>n\<close> (3 when \<open>n\<close> is left
  out) of the festivals whose date is not before \<open>currentDate\<close> in the order of strings,
  sorted by date, festivals of one date in the order of the list; so at most \<open>n\<close> records,
  with ascending dates.
\<close>

theorem getUpcoming_spec:
  "(\<not> isValidDateStr currentDate \<longrightarrow> getUpcoming currentDate n festivals = [])
   \<and> (\<forall>cur. currentDate = Str cur \<and> date_pattern cur \<longrightarrow>
        getUpcoming currentDate n festivals
          = take (case n of None \<Rightarrow> 3 | Some k \<Rightarrow> k)
              (sort_key f_date (filter (\<lambda>f. cur \<le> f_date f) festivals)))
   \<and> length (getUpcoming currentDate n festivals) \<le> (case n of None \<Rightarrow> 3 | Some k \<Rightarrow> k)
   \<and> sorted (map f_date (getUpcoming currentDate n festivals))
   \<and> set (getUpcoming currentDate n festivals) \<subseteq> set festivals"
proof -
  have eq: "getUpcoming (Str cur) n festivals
          = take (case n of None \<Rightarrow> 3 | Some k \<Rightarrow> k)
              (sort_key f_date (filter (\<lambda>f. cur \<le> f_date f) festivals))"
    if "date_pattern cur" for cur
    using that by (simp add: getUpcoming_def upcoming_from_filter js_sort_localeCompare)
  have srt: "sorted (map f_date (take m (sort_key f_date xs)))" for m and xs :: "festival list"
    by (simp flip: take_map)
  show ?thesis
  proof (cases "isValidDateStr currentDate")
    case False
    then show ?thesis
      by (auto simp: getUpcoming_def)
  next
    case True
    then obtain cur where c: "currentDate = Str cur" "date_pattern cur"
      by (cases currentDate) auto
    have "set (take m (sort_key f_date (filter (\<lambda>f. cur \<le> f_date f) festivals)))
            \<subseteq> set festivals" for m
      using set_take_subset [of m "sort_key f_date (filter (\<lambda>f. cur \<le> f_date f) festivals)"]
      by auto
    with c show ?thesis
      by (simp add: eq srt)
  qed
qed

text \<open>
  The example of the specification: of Diwali (2025-10-20) and Republic Day (2025-01-26),
  \<open>getUpcoming("2025-01-01", 1)\<close> is Republic Day alone.
\<close>

theorem getUpcoming_spec_witness:
  "getUpcoming (Str ''2025-01-01'') (Some 1)
     [\<lparr>f_name = ''Diwali'', f_date = ''2025-10-20'', f_type = ''religious''\<rparr>,
      \<lparr>f_name = ''Republic Day'', f_date = ''2025-01-26'', f_type = ''national''\<rparr>]
   = [\<lparr>f_name = ''Republic Day'', f_date = ''2025-01-26'', f_type = ''national''\<rparr>]
   \<and> getUpcoming (Str ''January'') None
     [\<lparr>f_name = ''Diwali'', f_date = ''2025-10-20'', f_type = ''religious''\<rparr>] = []"
  using getUpcoming_spec [of "Str ''2025-01-01''" "Some 1"
     "[\<lparr>f_name = ''Diwali'', f_date = ''2025-10-20'', f_type = ''religious''\<rparr>,
      \<lparr>f_name = ''Republic Day'', f_date = ''2025-01-26'', f_type = ''national''\<rparr>]"]
    getUpcoming_spec [of "Str ''January''" None
     "[\<lparr>f_name = ''Diwali'', f_date = ''2025-10-20'', f_type = ''religious''\<rparr>]"]
  by (simp add: date_pattern_def is_digit_def)

end
